theory Spec2Isabelle
  imports Complex_Main "HOL-Library.Word" "HOL-Library.Log_Nat" "HOL-Library.AList"
    "HOL-Library.Multiset" "HOL-Library.Sublist" "HOL-Library.Product_Lexorder"
begin

section \<open>JavaScript strings\<close>

text \<open>
  The model follows \<^verbatim>\<open>server.js\<close>: the handler of \<^verbatim>\<open>GET /api/top-characters\<close>
  (lines 90 to 156), \<^verbatim>\<open>fetchSheetRows\<close> (lines 25 to 44) and the three field names
  (lines 18 to 20). What the handler takes from the language (\<^verbatim>\<open>parseFloat\<close>, \<^verbatim>\<open>isNaN\<close>,
  \<^verbatim>\<open>!==\<close>, \<^verbatim>\<open>-\<close>, \<^verbatim>\<open>Array.prototype.sort\<close>, object spread and rest) is modelled after
  ECMA-262.

  A JavaScript string is a sequence of 16-bit code units. The field names of the sheet
  are Chinese, so the three constants are given by their code units; \<open>js\<close> embeds an
  ASCII literal.
\<close>

type_synonym code_unit = "16 word"
type_synonym jsstring = "code_unit list"

definition js :: "string \<Rightarrow> jsstring" where
  "js s = map (\<lambda>c. of_nat (of_char c)) s"

definition MAGIC_KEY :: jsstring where
  "MAGIC_KEY = [0x9B54, 0x6CD5, 0x653B, 0x64CA]"

definition PHYSICAL_KEY :: jsstring where
  "PHYSICAL_KEY = [0x7269, 0x7406, 0x653B, 0x64CA]"

definition VALUE_KEY :: jsstring where
  "VALUE_KEY = [0x50F9, 0x503C]"

section \<open>JavaScript numbers\<close>

text \<open>
  A number is an IEEE 754 double. Every finite double is an integer multiple of the
  smallest positive one, \<^verbatim>\<open>2 ^ (-1074)\<close>, and \<open>Fin n\<close> is \<open>n\<close> times that unit. A real
  number is rounded to the nearest double, ties to even, with 53 significant bits above
  the subnormal range, and to an infinity from \<^verbatim>\<open>2 ^ 1024\<close> on.

  The two zeros are identified: the handler only tests its keys with \<^verbatim>\<open>isNaN\<close> and
  \<^verbatim>\<open>!==\<close> and hands the sign of a difference to \<^verbatim>\<open>sort\<close>, none of which tells \<^verbatim>\<open>-0\<close>
  from \<^verbatim>\<open>+0\<close>, and the keys never reach the response.
\<close>

datatype jsnum = NaN | NegInf | Fin int | PosInf

definition double_of :: "int \<Rightarrow> int \<Rightarrow> jsnum" where
  \<comment> \<open>the double \<^verbatim>\<open>m * 2 ^ e\<close>, for \<open>- 1074 \<le> e\<close>\<close>
  "double_of m e = Fin (m * 2 ^ nat (e + 1074))"

definition round_half_even :: "int \<Rightarrow> int \<Rightarrow> int" where
  \<comment> \<open>\<open>n / d\<close> rounded to the nearest integer, ties to even\<close>
  "round_half_even n d =
     (let q = n div d; r = n mod d
      in if 2 * r < d then q else if d < 2 * r then q + 1 else if even q then q else q + 1)"

definition round53 :: "int \<Rightarrow> int \<Rightarrow> int" where
  \<comment> \<open>\<open>n / d \<ge> 0\<close>, counted in units, rounded to 53 significant bits: below \<^verbatim>\<open>2 ^ 53\<close>
     units the doubles are one unit apart, above it \<^verbatim>\<open>2 ^ s\<close> units\<close>
  "round53 n d =
     (let s = nat (bitlen (n div d) - 53) in round_half_even n (d * 2 ^ s) * 2 ^ s)"

definition to_double :: "bool \<Rightarrow> int \<Rightarrow> int \<Rightarrow> jsnum" where
  \<comment> \<open>the double nearest to \<open>n / d\<close> units, negated if \<open>neg\<close>; \<^verbatim>\<open>2 ^ 1024\<close>, which is
     \<^verbatim>\<open>2 ^ 2098\<close> units, and beyond is infinite\<close>
  "to_double neg n d =
     (let m = round53 n d
      in if 2 ^ 2098 \<le> m then (if neg then NegInf else PosInf)
         else Fin (if neg then - m else m))"

definition isNaN :: "jsnum \<Rightarrow> bool" where
  "isNaN x = (x = NaN)"

fun js_lt :: "jsnum \<Rightarrow> jsnum \<Rightarrow> bool" where
  \<comment> \<open>\<^verbatim>\<open>x < y\<close>: false when either is \<^verbatim>\<open>NaN\<close>\<close>
  "js_lt NaN _ = False"
| "js_lt _ NaN = False"
| "js_lt _ NegInf = False"
| "js_lt NegInf _ = True"
| "js_lt PosInf _ = False"
| "js_lt _ PosInf = True"
| "js_lt (Fin a) (Fin b) = (a < b)"

definition js_eq :: "jsnum \<Rightarrow> jsnum \<Rightarrow> bool" where
  \<comment> \<open>\<^verbatim>\<open>Number::equal\<close>: \<^verbatim>\<open>NaN\<close> equals nothing\<close>
  "js_eq x y = (x \<noteq> NaN \<and> x = y)"

definition js_ge :: "jsnum \<Rightarrow> jsnum \<Rightarrow> bool" where
  \<comment> \<open>\<^verbatim>\<open>x >= y\<close>\<close>
  "js_ge x y = (js_lt y x \<or> js_eq x y)"

fun js_sub :: "jsnum \<Rightarrow> jsnum \<Rightarrow> jsnum" where
  \<comment> \<open>\<^verbatim>\<open>x - y\<close>: the exact difference, rounded\<close>
  "js_sub NaN _ = NaN"
| "js_sub _ NaN = NaN"
| "js_sub PosInf PosInf = NaN"
| "js_sub NegInf NegInf = NaN"
| "js_sub PosInf _ = PosInf"
| "js_sub NegInf _ = NegInf"
| "js_sub _ PosInf = NegInf"
| "js_sub _ NegInf = PosInf"
| "js_sub (Fin a) (Fin b) = to_double (a < b) \<bar>a - b\<bar> 1"

section \<open>parseFloat\<close>

text \<open>
  \<^verbatim>\<open>parseFloat\<close> drops leading white space and reads the longest prefix that is a
  \<^verbatim>\<open>StrDecimalLiteral\<close>: an optional sign, then \<^verbatim>\<open>Infinity\<close>, or digits with an optional
  fraction and an optional exponent, or a dot with digits and an optional exponent. What
  follows the prefix is ignored; with no such prefix the result is \<^verbatim>\<open>NaN\<close>. A literal
  denotes the double nearest to its decimal value.
\<close>

definition is_ws :: "code_unit \<Rightarrow> bool" where
  \<comment> \<open>\<^verbatim>\<open>StrWhiteSpaceChar\<close>: white space and line terminators\<close>
  "is_ws c = (c \<in> set [0x9, 0xA, 0xB, 0xC, 0xD, 0x20, 0xA0, 0x1680, 0x2028, 0x2029,
                 0x202F, 0x205F, 0x3000, 0xFEFF] \<or> (0x2000 \<le> c \<and> c \<le> 0x200A))"

definition is_digit :: "code_unit \<Rightarrow> bool" where
  "is_digit c = (0x30 \<le> c \<and> c \<le> 0x39)"

definition dec :: "jsstring \<Rightarrow> nat" where
  \<comment> \<open>the value of a string of decimal digits\<close>
  "dec ds = foldl (\<lambda>a c. 10 * a + (unat c - 48)) 0 ds"

datatype literal = Infinity bool | Decimal bool nat int
  \<comment> \<open>the sign (true for \<^verbatim>\<open>-\<close>), and for a decimal literal the digits \<open>m\<close> and the power of
     ten \<open>k\<close> of its value \<^verbatim>\<open>m * 10 ^ k\<close>\<close>

definition ExponentPart :: "jsstring \<Rightarrow> int \<times> jsstring" where
  \<comment> \<open>the exponent and the rest; no exponent part reads as exponent 0 and consumes nothing\<close>
  "ExponentPart s =
     (case s of
        [] \<Rightarrow> (0, s)
      | c # t \<Rightarrow>
          if c = 0x65 \<or> c = 0x45 then
            (let (neg, u) = (case t of
                               [] \<Rightarrow> (False, t)
                             | x # v \<Rightarrow> if x = 0x2D then (True, v)
                                        else if x = 0x2B then (False, v) else (False, t));
                 ds = takeWhile is_digit u
             in if ds = [] then (0, s)
                else (if neg then - int (dec ds) else int (dec ds), dropWhile is_digit u))
          else (0, s))"

definition StrUnsignedDecimalLiteral :: "bool \<Rightarrow> jsstring \<Rightarrow> (literal \<times> jsstring) option" where
  "StrUnsignedDecimalLiteral neg s =
     (if take 8 s = js ''Infinity'' then Some (Infinity neg, drop 8 s)
      else
        let ip = takeWhile is_digit s; s1 = dropWhile is_digit s
        in case s1 of
             [] \<Rightarrow> if ip = [] then None else Some (Decimal neg (dec ip) 0, [])
           | c # t \<Rightarrow>
               if c = 0x2E then
                 (let fp = takeWhile is_digit t; (e, r) = ExponentPart (dropWhile is_digit t)
                  in if ip = [] \<and> fp = [] then None
                     else Some (Decimal neg (dec (ip @ fp)) (e - int (length fp)), r))
               else if ip = [] then None
               else (let (e, r) = ExponentPart s1 in Some (Decimal neg (dec ip) e, r)))"

definition StrDecimalLiteral :: "jsstring \<Rightarrow> (literal \<times> jsstring) option" where
  \<comment> \<open>the longest prefix that is a \<^verbatim>\<open>StrDecimalLiteral\<close>, and what follows it\<close>
  "StrDecimalLiteral s =
     (case s of
        [] \<Rightarrow> None
      | c # t \<Rightarrow> if c = 0x2D then StrUnsignedDecimalLiteral True t
                 else if c = 0x2B then StrUnsignedDecimalLiteral False t
                 else StrUnsignedDecimalLiteral False s)"

fun StringNumericValue :: "literal \<Rightarrow> jsnum" where
  "StringNumericValue (Infinity neg) = (if neg then NegInf else PosInf)"
| "StringNumericValue (Decimal neg m k) =
     (if 0 \<le> k then to_double neg (int m * 10 ^ nat k * 2 ^ 1074) 1
      else to_double neg (int m * 2 ^ 1074) (10 ^ nat (- k)))"

definition parseFloat_string :: "jsstring \<Rightarrow> jsnum" where
  "parseFloat_string s =
     (case StrDecimalLiteral (dropWhile is_ws s) of
        None \<Rightarrow> NaN
      | Some (l, _) \<Rightarrow> StringNumericValue l)"

text \<open>
  \<^verbatim>\<open>StringToNumber\<close>, the conversion that \<^verbatim>\<open>-\<close> applies to a string operand: the
  whole trimmed string has to be a literal, the empty string is \<open>0\<close>, and the binary,
  octal and hexadecimal integer literals are read as well.
\<close>

definition digit_value :: "code_unit \<Rightarrow> nat" where
  "digit_value c =
     (if 0x30 \<le> c \<and> c \<le> 0x39 then unat c - 0x30
      else if 0x61 \<le> c \<and> c \<le> 0x66 then unat c - 0x61 + 10
      else if 0x41 \<le> c \<and> c \<le> 0x46 then unat c - 0x41 + 10
      else 36)"

definition radix_literal :: "nat \<Rightarrow> jsstring \<Rightarrow> nat option" where
  "radix_literal b ds =
     (if ds \<noteq> [] \<and> list_all (\<lambda>c. digit_value c < b) ds
      then Some (foldl (\<lambda>a c. b * a + digit_value c) 0 ds) else None)"

definition NonDecimalIntegerLiteral :: "jsstring \<Rightarrow> nat option" where
  "NonDecimalIntegerLiteral s =
     (case s of
        z # x # ds \<Rightarrow>
          if z \<noteq> 0x30 then None
          else if x = 0x62 \<or> x = 0x42 then radix_literal 2 ds
          else if x = 0x6F \<or> x = 0x4F then radix_literal 8 ds
          else if x = 0x78 \<or> x = 0x58 then radix_literal 16 ds
          else None
      | _ \<Rightarrow> None)"

definition StringToNumber :: "jsstring \<Rightarrow> jsnum" where
  "StringToNumber s =
     (let t = rev (dropWhile is_ws (rev (dropWhile is_ws s)))
      in if t = [] then Fin 0
         else case NonDecimalIntegerLiteral t of
                Some n \<Rightarrow> to_double False (int n * 2 ^ 1074) 1
              | None \<Rightarrow>
                  (case StrDecimalLiteral t of
                     Some (l, []) \<Rightarrow> StringNumericValue l
                   | _ \<Rightarrow> NaN))"

section \<open>Values and objects\<close>

text \<open>
  A field of a row holds a string (Papa Parse with \<^verbatim>\<open>header: true\<close> produces nothing
  else); the decorated rows hold numbers under \<^verbatim>\<open>__primary\<close> and \<^verbatim>\<open>__secondary\<close>.
  An object is the list of its own properties in enumeration order, which spread and
  rest both keep; \<^verbatim>\<open>undefined\<close> is \<open>None\<close>.
\<close>

datatype jsval = Str jsstring | Num jsnum

type_synonym obj = "(jsstring \<times> jsval) list"

definition get_prop :: "obj \<Rightarrow> jsstring \<Rightarrow> jsval option" where
  \<comment> \<open>\<^verbatim>\<open>o[k]\<close>\<close>
  "get_prop ob k = map_of ob k"

definition set_prop :: "jsstring \<Rightarrow> jsval \<Rightarrow> obj \<Rightarrow> obj" where
  \<comment> \<open>defining \<^verbatim>\<open>k: v\<close> in an object literal after a spread: an existing property keeps its
     place and takes the new value, a new one goes last\<close>
  "set_prop k v ob = AList.update k v ob"

definition parseFloat :: "jsval option \<Rightarrow> jsnum" where
  \<comment> \<open>\<^verbatim>\<open>parseFloat\<close> reads the string form of its argument; a number's string form reads
     back as that number\<close>
  "parseFloat x =
     (case x of
        None \<Rightarrow> parseFloat_string (js ''undefined'')
      | Some (Str s) \<Rightarrow> parseFloat_string s
      | Some (Num n) \<Rightarrow> n)"

definition ToNumber :: "jsval option \<Rightarrow> jsnum" where
  "ToNumber x =
     (case x of
        None \<Rightarrow> NaN
      | Some (Str s) \<Rightarrow> StringToNumber s
      | Some (Num n) \<Rightarrow> n)"

fun strict_eq :: "jsval option \<Rightarrow> jsval option \<Rightarrow> bool" where
  "strict_eq None None = True"
| "strict_eq (Some (Num x)) (Some (Num y)) = js_eq x y"
| "strict_eq (Some (Str s)) (Some (Str t)) = (s = t)"
| "strict_eq _ _ = False"

section \<open>The ranking of \<^verbatim>\<open>GET /api/top-characters\<close>\<close>

text \<open>
  \<^verbatim>\<open>req.query.type\<close> is a string, an array, an object or \<^verbatim>\<open>undefined\<close>. The keys of lines
  100 to 112 are two functions of it; the last branch of the source takes every value
  that is not \<^verbatim>\<open>'magic'\<close> or \<^verbatim>\<open>'physical'\<close>.
\<close>

datatype qparam = QUndefined | QString jsstring | QArray "qparam list"
  | QObject "(jsstring \<times> qparam) list"

definition valid_type :: "qparam \<Rightarrow> bool" where
  \<comment> \<open>\<^verbatim>\<open>['magic', 'physical', 'value'].includes(type)\<close>\<close>
  "valid_type type =
     (type \<in> set [QString (js ''magic''), QString (js ''physical''), QString (js ''value'')])"

definition primaryKey :: "qparam \<Rightarrow> jsstring" where
  "primaryKey type =
     (if type = QString (js ''magic'') then MAGIC_KEY
      else if type = QString (js ''physical'') then PHYSICAL_KEY
      else VALUE_KEY)"

definition secondaryKey :: "qparam \<Rightarrow> jsstring" where
  "secondaryKey type =
     (if type = QString (js ''magic'') then VALUE_KEY
      else if type = QString (js ''physical'') then VALUE_KEY
      else MAGIC_KEY)"

definition primaryVal :: "jsstring \<Rightarrow> obj \<Rightarrow> jsnum" where
  \<comment> \<open>lines 118 and 121\<close>
  "primaryVal pk row =
     (let primaryRaw = parseFloat (get_prop row pk)
      in if isNaN primaryRaw then Fin 0 else primaryRaw)"

definition secondaryVal :: "jsstring \<Rightarrow> obj \<Rightarrow> jsnum" where
  \<comment> \<open>lines 119 and 122\<close>
  "secondaryVal sk row =
     (let secondaryRaw = parseFloat (get_prop row sk)
      in if isNaN secondaryRaw then Fin 0 else secondaryRaw)"

definition decorate :: "jsstring \<Rightarrow> jsstring \<Rightarrow> obj \<Rightarrow> obj" where
  \<comment> \<open>the callback of \<^verbatim>\<open>rows.map\<close>, lines 117 to 129:
     \<^verbatim>\<open>{ ...row, __primary: primaryVal, __secondary: secondaryVal }\<close>\<close>
  "decorate pk sk row =
     set_prop (js ''__secondary'') (Num (secondaryVal sk row))
       (set_prop (js ''__primary'') (Num (primaryVal pk row)) row)"

definition mapped :: "jsstring \<Rightarrow> jsstring \<Rightarrow> obj list \<Rightarrow> obj list" where
  "mapped pk sk rows = map (decorate pk sk) rows"

definition compare :: "obj \<Rightarrow> obj \<Rightarrow> jsnum" where
  \<comment> \<open>the comparator given to \<^verbatim>\<open>sort\<close>, lines 132 to 137\<close>
  "compare a b =
     (if \<not> strict_eq (get_prop b (js ''__primary'')) (get_prop a (js ''__primary''))
      then js_sub (ToNumber (get_prop b (js ''__primary'')))
             (ToNumber (get_prop a (js ''__primary'')))
      else js_sub (ToNumber (get_prop b (js ''__secondary'')))
             (ToNumber (get_prop a (js ''__secondary''))))"

text \<open>
  \<^verbatim>\<open>Array.prototype.sort\<close> is stable (ECMAScript 2019; the global \<^verbatim>\<open>fetch\<close> of line 26
  needs a later Node.js), and with a consistent comparator every stable sort returns the
  same array; it is modelled as insertion from the right. A comparator result that is
  positive puts the second argument first; a negative one, zero and \<^verbatim>\<open>NaN\<close> leave the
  first argument in front.
\<close>

fun insert_by :: "('a \<Rightarrow> 'a \<Rightarrow> jsnum) \<Rightarrow> 'a \<Rightarrow> 'a list \<Rightarrow> 'a list" where
  "insert_by cmp x [] = [x]"
| "insert_by cmp x (y # ys) =
     (if js_lt (Fin 0) (cmp x y) then y # insert_by cmp x ys else x # y # ys)"

definition Array_sort :: "('a \<Rightarrow> 'a \<Rightarrow> jsnum) \<Rightarrow> 'a list \<Rightarrow> 'a list" where
  "Array_sort cmp xs = foldr (insert_by cmp) xs []"

definition sorted_rows :: "jsstring \<Rightarrow> jsstring \<Rightarrow> obj list \<Rightarrow> obj list" where
  "sorted_rows pk sk rows = Array_sort compare (mapped pk sk rows)"

definition strip :: "obj \<Rightarrow> obj" where
  \<comment> \<open>\<^verbatim>\<open>({ __primary, __secondary, ...rest }) => rest\<close>\<close>
  "strip ob = filter (\<lambda>(k, v). k \<noteq> js ''__primary'' \<and> k \<noteq> js ''__secondary'') ob"

definition top5 :: "jsstring \<Rightarrow> jsstring \<Rightarrow> obj list \<Rightarrow> obj list" where
  "top5 pk sk rows = map strip (take 5 (sorted_rows pk sk rows))"

definition rank :: "qparam \<Rightarrow> obj list \<Rightarrow> obj list" where
  \<comment> \<open>lines 100 to 139: the keys of the mode, then decorate, sort, slice and strip\<close>
  "rank type rows = top5 (primaryKey type) (secondaryKey type) rows"

section \<open>The handler\<close>

text \<open>
  The world outside is an environment: what \<^verbatim>\<open>fetch(CSV_URL)\<close> and \<^verbatim>\<open>response.text()\<close>
  settle to (\<open>Inl\<close> is a rejection, with its message) and what \<^verbatim>\<open>Papa.parse\<close> makes of a
  text. A handler returns its response and the effects it had, in order.
\<close>

record http_response =
  ok :: bool
  status :: nat
  text_body :: "jsstring + jsstring"

record papa_result =
  errors :: "jsstring list"
  data :: "obj list"

record env =
  fetch_csv :: "jsstring + http_response"
  papa_parse :: "jsstring \<Rightarrow> papa_result"

datatype error = FetchRejected jsstring | DownloadFailed nat | CsvError jsstring

datatype effect = Fetch | LogError error

datatype response =
    TopCharacters "obj list" qparam jsstring jsstring
  | BadRequest
  | ServerError error

fun status_code :: "response \<Rightarrow> nat" where
  "status_code (TopCharacters _ _ _ _) = 200"
| "status_code BadRequest = 400"
| "status_code (ServerError _) = 500"

definition fetchSheetRows :: "env \<Rightarrow> error + obj list" where
  "fetchSheetRows e =
     (case fetch_csv e of
        Inl m \<Rightarrow> Inl (FetchRejected m)
      | Inr response \<Rightarrow>
          if \<not> ok response then Inl (DownloadFailed (status response))
          else (case text_body response of
                  Inl m \<Rightarrow> Inl (FetchRejected m)
                | Inr csvText \<Rightarrow>
                    let parsed = papa_parse e csvText
                    in (case errors parsed of
                          [] \<Rightarrow> Inr (data parsed)
                        | firstErr # _ \<Rightarrow> Inl (CsvError firstErr))))"

definition top_characters :: "env \<Rightarrow> qparam \<Rightarrow> response \<times> effect list" where
  \<comment> \<open>lines 90 to 156\<close>
  "top_characters e type =
     (if \<not> valid_type type then (BadRequest, [])
      else case fetchSheetRows e of
             Inl err \<Rightarrow> (ServerError err, [Fetch, LogError err])
           | Inr rows \<Rightarrow>
               (TopCharacters (rank type rows) type (primaryKey type) (secondaryKey type),
                [Fetch]))"

section \<open>Keys of the ranking, as a linear order\<close>

text \<open>
  The comparator orders the decorated rows by the pair of their keys, each descending.
  \<open>desc_rank\<close> sends a number to a pair of integers that is smaller the larger the
  number is, so that the lexicographic order on \<open>sort_key_of\<close> is the order of the
  comparator.
\<close>

fun desc_rank :: "jsnum \<Rightarrow> int \<times> int" where
  "desc_rank PosInf = (0, 0)"
| "desc_rank (Fin n) = (1, - n)"
| "desc_rank NegInf = (2, 0)"
| "desc_rank NaN = (3, 0)"

definition sort_key_of :: "jsstring \<Rightarrow> jsstring \<Rightarrow> obj \<Rightarrow> (int \<times> int) \<times> (int \<times> int)" where
  "sort_key_of pk sk row = (desc_rank (primaryVal pk row), desc_rank (secondaryVal sk row))"

definition not_below :: "jsstring \<Rightarrow> jsstring \<Rightarrow> obj \<Rightarrow> obj \<Rightarrow> bool" where
  \<comment> \<open>the keys of \<open>x\<close> put it no lower than \<open>r\<close>: a greater primary key, or an equal one and
     a secondary key at least as great\<close>
  "not_below pk sk x r =
     (js_lt (primaryVal pk r) (primaryVal pk x) \<or>
      (js_eq (primaryVal pk x) (primaryVal pk r) \<and>
       js_ge (secondaryVal sk x) (secondaryVal sk r)))"

section \<open>Numeric prefixes\<close>

definition ends_literal :: "jsstring \<Rightarrow> bool" where
  \<comment> \<open>what follows cannot extend any literal: it is empty, or it starts with a code unit
     that is not a digit or a dot and it does not start an exponent part (an exponent
     letter, an optional sign, a digit)\<close>
  "ends_literal r =
     (case r of
        [] \<Rightarrow> True
      | c # t \<Rightarrow>
          \<not> is_digit c \<and> c \<noteq> 0x2E \<and>
          ((c = 0x65 \<or> c = 0x45) \<longrightarrow>
             (case t of
                [] \<Rightarrow> True
              | x # v \<Rightarrow>
                  \<not> is_digit x \<and>
                  ((x = 0x2D \<or> x = 0x2B) \<longrightarrow>
                     (case v of [] \<Rightarrow> True | d # _ \<Rightarrow> \<not> is_digit d)))))"

definition is_literal :: "jsstring \<Rightarrow> bool" where
  \<comment> \<open>the whole string is a \<^verbatim>\<open>StrDecimalLiteral\<close>\<close>
  "is_literal q = (case StrDecimalLiteral q of None \<Rightarrow> False | Some (l, r) \<Rightarrow> r = [])"

definition longest_literal :: "jsstring \<Rightarrow> jsstring \<Rightarrow> bool" where
  \<comment> \<open>\<open>p\<close> followed by \<open>r\<close>: no prefix longer than \<open>p\<close> is a literal\<close>
  "longest_literal p r = list_all (\<lambda>n. \<not> is_literal (p @ take n r)) [1..<Suc (length r)]"

definition unsigned_start :: "jsstring \<Rightarrow> bool" where
  \<comment> \<open>starts with \<^verbatim>\<open>Infinity\<close>, with a digit, or with a dot and a digit\<close>
  "unsigned_start s =
     (take 8 s = js ''Infinity'' \<or>
      (case s of
         [] \<Rightarrow> False
       | c # t \<Rightarrow> is_digit c \<or> (c = 0x2E \<and> (case t of [] \<Rightarrow> False | d # _ \<Rightarrow> is_digit d))))"

definition numeric_start :: "jsstring \<Rightarrow> bool" where
  \<comment> \<open>a number starts here: an optional sign, then the start of an unsigned literal\<close>
  "numeric_start s =
     (case s of
        [] \<Rightarrow> False
      | c # t \<Rightarrow> if c = 0x2D \<or> c = 0x2B then unsigned_start t else unsigned_start s)"

section \<open>Example rows\<close>

definition character :: "string \<Rightarrow> string \<Rightarrow> string \<Rightarrow> obj" where
  \<comment> \<open>a row of the sheet, cut down to its ID, magic attack and value columns\<close>
  "character i m v = [(js ''ID'', Str (js i)), (MAGIC_KEY, Str (js m)), (VALUE_KEY, Str (js v))]"

definition example_rows :: "obj list" where
  "example_rows =
     [character ''1'' ''10'' ''5'', character ''2'' ''10'' ''9'', character ''3'' '''' ''1'']"

definition tied_rows :: "obj list" where
  "tied_rows =
     [character ''1'' ''0'' ''0'', character ''2'' ''0'' ''0'', character ''3'' ''0'' ''0'',
      character ''4'' ''0'' ''0'', character ''5'' ''0'' ''0'', character ''6'' ''0'' ''0'']"

definition mixed_rows :: "obj list" where
  \<comment> \<open>six rows, one of them with a magic attack that is no number\<close>
  "mixed_rows =
     [character ''1'' ''3'' '''', character ''2'' ''n/a'' '''', character ''3'' ''-1'' '''',
      character ''4'' ''2'' '''', character ''5'' ''1'' '''', character ''6'' ''4'' '''']"

definition annotated_row :: obj where
  \<comment> \<open>a row of a sheet that has a column named \<^verbatim>\<open>__primary\<close>\<close>
  "annotated_row =
     [(js ''ID'', Str (js ''1'')), (js ''__primary'', Str (js ''yes'')),
      (MAGIC_KEY, Str (js ''0''))]"

definition example_env :: env where
  \<comment> \<open>the download succeeds and the CSV parses to \<open>example_rows\<close>\<close>
  "example_env =
     \<lparr>fetch_csv = Inr \<lparr>ok = True, status = 200, text_body = Inr []\<rparr>,
      papa_parse = (\<lambda>_. \<lparr>errors = [], data = example_rows\<rparr>)\<rparr>"

section \<open>Arithmetic of the comparator\<close>

lemma round_half_even_ge: "0 < d \<Longrightarrow> n div d \<le> round_half_even n d"
  by (simp add: round_half_even_def Let_def)

lemma round53_pos:
  assumes "0 < n"
  shows "0 < round53 n 1"
proof -
  let ?s = "nat (bitlen n - 53)"
  have "(2::int) ^ ?s \<le> 2 ^ nat (bitlen n - 1)"
    by (rule power_increasing) auto
  also have "\<dots> \<le> n"
    using bitlen_bounds [OF assms] by simp
  finally have le: "(2::int) ^ ?s \<le> n" .
  have "1 \<le> n div 2 ^ ?s"
    using le by (simp add: pos_imp_zdiv_pos_iff order_less_le_trans [OF zero_less_one] int_one_le_iff_zero_less)
  also have "\<dots> \<le> round_half_even n (2 ^ ?s)"
    by (rule round_half_even_ge) simp
  finally have "0 < round_half_even n (2 ^ ?s) * 2 ^ ?s"
    by simp
  then show ?thesis
    by (simp add: round53_def Let_def)
qed

lemma round53_zero: "round53 0 1 = 0"
  by (simp add: round53_def round_half_even_def)

lemma js_sub_Fin_pos: "js_lt (Fin 0) (to_double (b < a) \<bar>b - a\<bar> 1) \<longleftrightarrow> a < b"
proof -
  consider "a < b" | "a = b" | "b < a" by linarith
  then show ?thesis
  proof cases
    case 1
    then have "0 < round53 \<bar>b - a\<bar> 1" by (intro round53_pos) simp
    with 1 show ?thesis by (simp add: to_double_def Let_def)
  next
    case 2
    then show ?thesis by (simp add: to_double_def round53_zero)
  next
    case 3
    then have "0 < round53 \<bar>b - a\<bar> 1" by (intro round53_pos) simp
    with 3 show ?thesis by (simp add: to_double_def Let_def)
  qed
qed

lemma js_sub_pos: "p \<noteq> NaN \<Longrightarrow> q \<noteq> NaN \<Longrightarrow> js_lt (Fin 0) (js_sub q p) \<longleftrightarrow> js_lt p q"
  by (cases p; cases q) (simp_all add: js_sub_Fin_pos)


lemma js_sub_Fin_neg: "js_lt (to_double (b < a) \<bar>b - a\<bar> 1) (Fin 0) \<longleftrightarrow> b < a"
proof -
  consider "a < b" | "a = b" | "b < a" by linarith
  then show ?thesis
  proof cases
    case 1
    then have "0 < round53 \<bar>b - a\<bar> 1" by (intro round53_pos) simp
    with 1 show ?thesis by (simp add: to_double_def Let_def)
  next
    case 2
    then show ?thesis by (simp add: to_double_def round53_zero)
  next
    case 3
    then have "0 < round53 \<bar>b - a\<bar> 1" by (intro round53_pos) simp
    with 3 show ?thesis by (simp add: to_double_def Let_def)
  qed
qed

lemma js_sub_neg: "p \<noteq> NaN \<Longrightarrow> q \<noteq> NaN \<Longrightarrow> js_lt (js_sub q p) (Fin 0) \<longleftrightarrow> js_lt q p"
  by (cases p; cases q) (simp_all add: js_sub_Fin_neg)

lemma desc_rank_inj: "desc_rank p = desc_rank q \<longleftrightarrow> p = q"
  by (cases p; cases q) simp_all

lemma desc_rank_less: "p \<noteq> NaN \<Longrightarrow> q \<noteq> NaN \<Longrightarrow> desc_rank q < desc_rank p \<longleftrightarrow> js_lt p q"
  by (cases p; cases q) simp_all

lemma primaryVal_not_NaN: "primaryVal pk row \<noteq> NaN"
  by (simp add: primaryVal_def isNaN_def Let_def)

lemma secondaryVal_not_NaN: "secondaryVal sk row \<noteq> NaN"
  by (simp add: secondaryVal_def isNaN_def Let_def)

lemma reserved_distinct: "js ''__primary'' \<noteq> js ''__secondary''"
  by (simp add: js_def)

lemma get_decorate_primary:
  "get_prop (decorate pk sk row) (js ''__primary'') = Some (Num (primaryVal pk row))"
  using reserved_distinct by (simp add: decorate_def get_prop_def set_prop_def update_conv')

lemma get_decorate_secondary:
  "get_prop (decorate pk sk row) (js ''__secondary'') = Some (Num (secondaryVal sk row))"
  by (simp add: decorate_def get_prop_def set_prop_def update_conv')

lemma compare_decorate:
  "js_lt (Fin 0) (compare (decorate pk sk x) (decorate pk sk y))
     \<longleftrightarrow> \<not> sort_key_of pk sk x \<le> sort_key_of pk sk y"
proof -
  let ?px = "primaryVal pk x" and ?py = "primaryVal pk y"
  let ?sx = "secondaryVal sk x" and ?sy = "secondaryVal sk y"
  have p: "js_lt (Fin 0) (js_sub ?py ?px) \<longleftrightarrow> desc_rank ?py < desc_rank ?px"
    by (simp add: js_sub_pos desc_rank_less primaryVal_not_NaN)
  have s: "js_lt (Fin 0) (js_sub ?sy ?sx) \<longleftrightarrow> desc_rank ?sy < desc_rank ?sx"
    by (simp add: js_sub_pos desc_rank_less secondaryVal_not_NaN)
  have e: "js_eq ?py ?px \<longleftrightarrow> desc_rank ?py = desc_rank ?px"
    by (simp add: js_eq_def primaryVal_not_NaN desc_rank_inj)
  show ?thesis
    unfolding compare_def get_decorate_primary get_decorate_secondary ToNumber_def
    using p s e by (auto simp: sort_key_of_def)
qed

text \<open>
  On decorated rows the comparator is consistent: its sign is the lexicographic order of
  the keys, so the insertion below and every other stable sort return the same list.
\<close>

lemma compare_decorate_neg:
  "js_lt (compare (decorate pk sk x) (decorate pk sk y)) (Fin 0)
     \<longleftrightarrow> sort_key_of pk sk x < sort_key_of pk sk y"
proof -
  let ?px = "primaryVal pk x" and ?py = "primaryVal pk y"
  let ?sx = "secondaryVal sk x" and ?sy = "secondaryVal sk y"
  have p: "js_lt (js_sub ?py ?px) (Fin 0) \<longleftrightarrow> desc_rank ?px < desc_rank ?py"
    by (simp add: js_sub_neg desc_rank_less primaryVal_not_NaN)
  have s: "js_lt (js_sub ?sy ?sx) (Fin 0) \<longleftrightarrow> desc_rank ?sx < desc_rank ?sy"
    by (simp add: js_sub_neg desc_rank_less secondaryVal_not_NaN)
  have e: "js_eq ?py ?px \<longleftrightarrow> desc_rank ?py = desc_rank ?px"
    by (simp add: js_eq_def primaryVal_not_NaN desc_rank_inj)
  show ?thesis
    unfolding compare_def get_decorate_primary get_decorate_secondary ToNumber_def
    using p s e by (auto simp: sort_key_of_def)
qed

lemma insert_by_decorate:
  "insert_by compare (decorate pk sk x) (map (decorate pk sk) ys)
     = map (decorate pk sk) (insort_key (sort_key_of pk sk) x ys)"
  by (induction ys) (simp_all add: compare_decorate)

lemma Array_sort_decorate:
  "Array_sort compare (map (decorate pk sk) rows)
     = map (decorate pk sk) (sort_key (sort_key_of pk sk) rows)"
  by (induction rows) (simp_all add: Array_sort_def insert_by_decorate sort_key_def)

lemma strip_update:
  "k = js ''__primary'' \<or> k = js ''__secondary'' \<Longrightarrow> strip (AList.update k v ob) = strip ob"
  by (induction ob) (auto simp: strip_def)

lemma strip_decorate: "strip (decorate pk sk row) = strip row"
  by (simp add: decorate_def set_prop_def strip_update)

lemma rank_eq:
  "rank type rows
     = map strip (take 5 (sort_key (sort_key_of (primaryKey type) (secondaryKey type)) rows))"
  by (simp add: rank_def top5_def sorted_rows_def mapped_def Array_sort_decorate
      take_map strip_decorate)

section \<open>The ranking as a stable sort on the keys\<close>

lemma get_strip:
  "k \<noteq> js ''__primary'' \<Longrightarrow> k \<noteq> js ''__secondary'' \<Longrightarrow> get_prop (strip ob) k = get_prop ob k"
  by (induction ob) (auto simp: strip_def get_prop_def)

lemma primaryKey_cases:
  "primaryKey type = MAGIC_KEY \<or> primaryKey type = PHYSICAL_KEY \<or> primaryKey type = VALUE_KEY"
  by (simp add: primaryKey_def)

lemma secondaryKey_cases:
  "secondaryKey type = VALUE_KEY \<or> secondaryKey type = MAGIC_KEY"
  by (simp add: secondaryKey_def)

lemma field_not_reserved:
  "k = MAGIC_KEY \<or> k = PHYSICAL_KEY \<or> k = VALUE_KEY \<Longrightarrow>
     k \<noteq> js ''__primary'' \<and> k \<noteq> js ''__secondary''"
  by (auto simp: MAGIC_KEY_def PHYSICAL_KEY_def VALUE_KEY_def js_def)

lemma primaryVal_strip: "primaryVal (primaryKey type) (strip ob) = primaryVal (primaryKey type) ob"
  using field_not_reserved [of "primaryKey type"] primaryKey_cases [of type]
  by (simp add: primaryVal_def get_strip)

lemma secondaryVal_strip:
  "secondaryVal (secondaryKey type) (strip ob) = secondaryVal (secondaryKey type) ob"
  using field_not_reserved [of "secondaryKey type"] secondaryKey_cases [of type]
  by (auto simp add: secondaryVal_def get_strip)

lemma sort_key_of_le:
  "sort_key_of pk sk a \<le> sort_key_of pk sk b \<longleftrightarrow>
     js_lt (primaryVal pk b) (primaryVal pk a) \<or>
     primaryVal pk a = primaryVal pk b \<and>
       (js_lt (secondaryVal sk b) (secondaryVal sk a) \<or> secondaryVal sk a = secondaryVal sk b)"
  using desc_rank_less [OF primaryVal_not_NaN primaryVal_not_NaN, of pk a pk b]
    desc_rank_less [OF secondaryVal_not_NaN secondaryVal_not_NaN, of sk a sk b]
  by (auto simp: sort_key_of_def desc_rank_inj order_le_less)

lemma js_lt_irrefl: "\<not> js_lt x x"
  by (cases x) simp_all

lemma filter_take_prefix: "prefix (filter P (take n xs)) (filter P xs)"
  by (rule filter_mono_prefix) (rule take_is_prefix)

lemma key_filter:
  "(js_eq (primaryVal pk r) p \<and> js_eq (secondaryVal sk r) s)
     \<longleftrightarrow> sort_key_of pk sk r = (desc_rank p, desc_rank s)"
  by (auto simp: js_eq_def sort_key_of_def desc_rank_inj primaryVal_not_NaN secondaryVal_not_NaN)

lemma sort_key_of_strip:
  "sort_key_of (primaryKey type) (secondaryKey type) (strip r)
     = sort_key_of (primaryKey type) (secondaryKey type) r"
  by (simp add: sort_key_of_def primaryVal_strip secondaryVal_strip)

lemma strip_id:
  "get_prop r (js ''__primary'') = None \<Longrightarrow> get_prop r (js ''__secondary'') = None \<Longrightarrow> strip r = r"
  by (induction r) (auto simp: strip_def get_prop_def split: if_splits)

lemma get_strip_reserved:
  "get_prop (strip r) (js ''__primary'') = None \<and> get_prop (strip r) (js ''__secondary'') = None"
  by (induction r) (auto simp: strip_def get_prop_def)

lemma strip_changes:
  "get_prop r (js ''__primary'') \<noteq> None \<or> get_prop r (js ''__secondary'') \<noteq> None \<Longrightarrow> strip r \<noteq> r"
  using get_strip_reserved [of r] by auto

lemma mset_take_subset: "mset (take n xs) \<subseteq># mset xs"
proof -
  have "mset xs = mset (take n xs) + mset (drop n xs)"
    by (simp flip: mset_append)
  then show ?thesis by simp
qed

lemma map_strip_id:
  assumes "\<forall>r\<in>set rows. get_prop r (js ''__primary'') = None \<and> get_prop r (js ''__secondary'') = None"
  shows "map strip rows = rows"
  using assms by (induction rows) (simp_all add: strip_id)

lemma rank_unreserved:
  assumes "\<forall>r\<in>set rows. get_prop r (js ''__primary'') = None \<and> get_prop r (js ''__secondary'') = None"
  shows "rank type rows = take 5 (sort_key (sort_key_of (primaryKey type) (secondaryKey type)) rows)"
proof -
  let ?S = "sort_key (sort_key_of (primaryKey type) (secondaryKey type)) rows"
  have "\<forall>r\<in>set (take 5 ?S). get_prop r (js ''__primary'') = None \<and> get_prop r (js ''__secondary'') = None"
    using assms by (auto dest: in_set_takeD)
  then show ?thesis
    by (simp add: rank_eq map_strip_id)
qed

lemma take_sorted_member:
  assumes "sorted (map f xs)" and "r \<in> set xs"
    and "length (filter (\<lambda>x. f x \<le> f r) xs) \<le> n"
  shows "r \<in> set (take n xs)"
proof -
  obtain i where i: "i < length xs" "xs ! i = r"
    using assms(2) by (auto simp: in_set_conv_nth)
  have "\<forall>x\<in>set (take (Suc i) xs). f x \<le> f r"
  proof
    fix x assume "x \<in> set (take (Suc i) xs)"
    then obtain j where j: "j < Suc i" "j < length xs" "xs ! j = x"
      by (auto simp: in_set_conv_nth)
    then have "map f xs ! j \<le> map f xs ! i"
      using i(1) by (intro sorted_nth_mono [OF assms(1)]) simp_all
    with i j show "f x \<le> f r" by simp
  qed
  then have "filter (\<lambda>x. f x \<le> f r) (take (Suc i) xs) = take (Suc i) xs"
    by simp
  moreover have "length (filter (\<lambda>x. f x \<le> f r) (take (Suc i) xs))
      \<le> length (filter (\<lambda>x. f x \<le> f r) xs)"
    using prefix_length_le [OF filter_take_prefix] .
  ultimately have "Suc i \<le> n"
    using assms(3) i(1) by simp
  with i show ?thesis
    by (auto simp: in_set_conv_nth)
qed

lemma not_below_le:
  "not_below pk sk x r \<longleftrightarrow> sort_key_of pk sk x \<le> sort_key_of pk sk r"
  unfolding sort_key_of_le not_below_def js_ge_def js_eq_def
  using primaryVal_not_NaN [of pk x] secondaryVal_not_NaN [of sk x] by auto

lemma rank_member:
  assumes "r \<in> set rows"
    and "length (filter (\<lambda>x. not_below (primaryKey type) (secondaryKey type) x r) rows) \<le> 5"
  shows "strip r \<in> set (rank type rows)"
proof -
  let ?K = "sort_key_of (primaryKey type) (secondaryKey type)"
  let ?S = "sort_key ?K rows"
  have "mset (filter (\<lambda>x. ?K x \<le> ?K r) ?S) = mset (filter (\<lambda>x. ?K x \<le> ?K r) rows)"
    by (simp add: mset_filter)
  then have "length (filter (\<lambda>x. ?K x \<le> ?K r) ?S) = length (filter (\<lambda>x. ?K x \<le> ?K r) rows)"
    by (rule mset_eq_length)
  with assms(2) have "length (filter (\<lambda>x. ?K x \<le> ?K r) ?S) \<le> 5"
    by (simp add: not_below_le)
  from take_sorted_member [OF _ _ this] assms(1) have "r \<in> set (take 5 ?S)"
    by simp
  then show ?thesis
    by (simp add: rank_eq)
qed

lemma rank_all:
  assumes "length rows \<le> 5"
  shows "mset (rank type rows) = mset (map strip rows)"
  using assms by (simp add: rank_eq)

section \<open>The longest literal prefix\<close>

lemma takeWhile_all:
  assumes "dropWhile P xs = []" and "case r of [] \<Rightarrow> True | c # _ \<Rightarrow> \<not> P c"
  shows "takeWhile P (xs @ r) = xs" and "dropWhile P (xs @ r) = r"
proof -
  have all: "\<forall>x\<in>set xs. P x"
    using assms(1) by (simp add: dropWhile_eq_Nil_conv)
  have r: "takeWhile P r = []" "dropWhile P r = r"
    using assms(2) by (cases r; simp)+
  show "takeWhile P (xs @ r) = xs" using all r by (simp add: takeWhile_append2)
  show "dropWhile P (xs @ r) = r" using all r by (simp add: dropWhile_append2)
qed

lemma takeWhile_stop:
  assumes "dropWhile P xs = c # t"
  shows "takeWhile P (xs @ r) = takeWhile P xs" and "dropWhile P (xs @ r) = c # t @ r"
proof -
  have c: "c \<in> set xs" "\<not> P c"
    using assms by (metis dropWhile_eq_Cons_conv in_set_conv_decomp)+
  show "takeWhile P (xs @ r) = takeWhile P xs"
    using c by (auto intro: takeWhile_append1)
  show "dropWhile P (xs @ r) = c # t @ r"
    using c assms by (auto simp: dropWhile_append1)
qed

lemma ends_literal_digit: "ends_literal r \<Longrightarrow> case r of [] \<Rightarrow> True | c # _ \<Rightarrow> \<not> is_digit c"
  by (simp add: ends_literal_def split: list.splits)

lemma ExponentPart_ends: "ends_literal r \<Longrightarrow> ExponentPart r = (0, r)"
  by (auto simp: ends_literal_def ExponentPart_def Let_def split: list.splits)

lemma ExponentPart_append:
  assumes "ExponentPart s = (e, [])" and "ends_literal r"
  shows "ExponentPart (s @ r) = (e, r)"
proof (cases s)
  case Nil
  with assms show ?thesis by (simp add: ExponentPart_ends) (simp add: ExponentPart_def)
next
  case (Cons c t)
  show ?thesis
  proof (cases "c = 0x65 \<or> c = 0x45")
    case False
    with assms Cons show ?thesis by (simp add: ExponentPart_def)
  next
    case ce: True
    define u where "u = (case t of [] \<Rightarrow> t | x # v \<Rightarrow> if x = 0x2D \<or> x = 0x2B then v else t)"
    define neg where "neg = (case t of [] \<Rightarrow> False | x # v \<Rightarrow> x = 0x2D)"
    have E: "ExponentPart (c # w) =
        (let u' = (case w of [] \<Rightarrow> w | x # v \<Rightarrow> if x = 0x2D \<or> x = 0x2B then v else w);
             n' = (case w of [] \<Rightarrow> False | x # v \<Rightarrow> x = 0x2D)
         in if takeWhile is_digit u' = [] then (0, c # w)
            else (if n' then - int (dec (takeWhile is_digit u')) else int (dec (takeWhile is_digit u')),
                  dropWhile is_digit u'))" for w
      using ce by (auto simp: ExponentPart_def Let_def split: list.splits)
    from assms(1) Cons have tw: "takeWhile is_digit u \<noteq> []" and dw: "dropWhile is_digit u = []"
      and e: "e = (if neg then - int (dec (takeWhile is_digit u)) else int (dec (takeWhile is_digit u)))"
      by (auto simp: E u_def neg_def Let_def split: if_splits)
    from tw have "u \<noteq> []" by auto
    then have "t \<noteq> []" by (auto simp: u_def)
    then have u': "(case t @ r of [] \<Rightarrow> t @ r | x # v \<Rightarrow> if x = 0x2D \<or> x = 0x2B then v else t @ r) = u @ r"
      and n': "(case t @ r of [] \<Rightarrow> False | x # v \<Rightarrow> x = 0x2D) = neg"
      by (auto simp: u_def neg_def split: list.splits)
    have tk: "takeWhile is_digit (u @ r) = u" "dropWhile is_digit (u @ r) = r" "takeWhile is_digit u = u"
      using takeWhile_all [OF dw ends_literal_digit [OF assms(2)]] dw
      by (simp_all add: dropWhile_eq_Nil_conv)
    show ?thesis
      using tw e by (simp add: Cons E [of "t @ r"] u' n' tk)
  qed
qed


lemma Infinity_head: "s \<noteq> [] \<Longrightarrow> hd s \<noteq> 0x49 \<Longrightarrow> take 8 (s @ r) \<noteq> js ''Infinity''"
  by (cases s) (simp_all add: js_def)

lemma Infinity_take:
  assumes "take 8 s = js ''Infinity''"
  shows "take 8 (s @ r) = js ''Infinity''" and "drop 8 (s @ r) = drop 8 s @ r"
proof -
  have "length (take 8 s) = 8" by (simp add: assms js_def)
  then have "8 \<le> length s" by simp
  then show "take 8 (s @ r) = js ''Infinity''" "drop 8 (s @ r) = drop 8 s @ r"
    using assms by simp_all
qed

lemma Unsigned_head:
  assumes "StrUnsignedDecimalLiteral neg s = Some x" and "take 8 s \<noteq> js ''Infinity''"
  shows "s \<noteq> [] \<and> (is_digit (hd s) \<or> hd s = 0x2E)"
proof (cases s)
  case Nil
  with assms show ?thesis by (simp add: StrUnsignedDecimalLiteral_def)
next
  case (Cons c t)
  with assms show ?thesis
    by (cases "is_digit c")
      (auto simp: StrUnsignedDecimalLiteral_def Let_def split: if_splits)
qed

lemma digit_not_I: "is_digit c \<or> c = 0x2E \<Longrightarrow> c \<noteq> 0x49"
  by (auto simp: is_digit_def)

lemma Unsigned_append:
  assumes "StrUnsignedDecimalLiteral neg s = Some (l, [])" and "ends_literal r"
  shows "StrUnsignedDecimalLiteral neg (s @ r) = Some (l, r)"
proof (cases "take 8 s = js ''Infinity''")
  case True
  have "StrUnsignedDecimalLiteral neg (s @ r) = Some (Infinity neg, drop 8 s @ r)"
    unfolding StrUnsignedDecimalLiteral_def Infinity_take [OF True] by simp
  moreover have "l = Infinity neg \<and> drop 8 s = []"
    using assms(1) unfolding StrUnsignedDecimalLiteral_def True by simp
  ultimately show ?thesis by simp
next
  case False
  from Unsigned_head [OF assms(1) False]
  have inf: "take 8 (s @ r) \<noteq> js ''Infinity''"
    using digit_not_I [of "hd s"] by (intro Infinity_head) auto
  let ?ip = "takeWhile is_digit s"
  show ?thesis
  proof (cases "dropWhile is_digit s")
    case Nil
    from assms(1) False Nil have l: "?ip \<noteq> []" "l = Decimal neg (dec ?ip) 0"
      by (auto simp: StrUnsignedDecimalLiteral_def Let_def split: if_splits)
    have tk: "takeWhile is_digit (s @ r) = s" "dropWhile is_digit (s @ r) = r" "?ip = s"
      using takeWhile_all [OF Nil ends_literal_digit [OF assms(2)]] Nil
      by (simp_all add: dropWhile_eq_Nil_conv)
    show ?thesis
    proof (cases r)
      case Nil
      with assms show ?thesis by simp
    next
      case (Cons c t)
      with assms(2) have "c \<noteq> 0x2E" by (simp add: ends_literal_def)
      moreover have "ExponentPart (c # t) = (0, c # t)"
        using assms(2) Cons ExponentPart_ends by simp
      ultimately show ?thesis
        using l inf tk Cons by (auto simp: StrUnsignedDecimalLiteral_def Let_def)
    qed
  next
    case (Cons c t)
    note tk = takeWhile_stop [OF Cons, of r]
    show ?thesis
    proof (cases "c = 0x2E")
      case dot: True
      let ?fp = "takeWhile is_digit t"
      obtain e r0 where ex: "ExponentPart (dropWhile is_digit t) = (e, r0)"
        by (cases "ExponentPart (dropWhile is_digit t)")
      from assms(1) False Cons dot ex
      have l: "\<not> (?ip = [] \<and> ?fp = [])" "r0 = []"
        "l = Decimal neg (dec (?ip @ ?fp)) (e - int (length ?fp))"
        by (auto simp: StrUnsignedDecimalLiteral_def Let_def split: if_splits)
      have "takeWhile is_digit (t @ r) = ?fp \<and>
            ExponentPart (dropWhile is_digit (t @ r)) = (e, r)"
      proof (cases "dropWhile is_digit t")
        case Nil
        have t: "takeWhile is_digit (t @ r) = t" "dropWhile is_digit (t @ r) = r" "?fp = t"
          using takeWhile_all [OF Nil ends_literal_digit [OF assms(2)]] Nil
          by (simp_all add: dropWhile_eq_Nil_conv)
        have "e = 0"
          using ex Nil by (simp add: ExponentPart_def)
        then show ?thesis
          unfolding t using ExponentPart_ends [OF assms(2)] by simp
      next
        case c2: (Cons c' t')
        have "ExponentPart ((c' # t') @ r) = (e, r)"
          using ex l(2) c2 assms(2) by (intro ExponentPart_append) simp_all
        then show ?thesis
          using takeWhile_stop [OF c2, of r] by simp
      qed
      then show ?thesis
        using l inf tk dot by (auto simp: StrUnsignedDecimalLiteral_def Let_def)
    next
      case nodot: False
      obtain e r0 where ex: "ExponentPart (c # t) = (e, r0)"
        by (cases "ExponentPart (c # t)")
      from assms(1) False Cons nodot ex
      have l: "?ip \<noteq> []" "r0 = []" "l = Decimal neg (dec ?ip) e"
        by (auto simp: StrUnsignedDecimalLiteral_def Let_def split: if_splits)
      have "ExponentPart ((c # t) @ r) = (e, r)"
        using ex l(2) assms(2) by (intro ExponentPart_append) simp_all
      then show ?thesis
        using l inf tk nodot by (auto simp: StrUnsignedDecimalLiteral_def Let_def)
    qed
  qed
qed

lemma StrDecimalLiteral_append:
  assumes "StrDecimalLiteral s = Some (l, [])" and "ends_literal r"
  shows "StrDecimalLiteral (s @ r) = Some (l, r)"
proof (cases s)
  case Nil
  with assms show ?thesis by (simp add: StrDecimalLiteral_def)
next
  case (Cons c t)
  with assms(1) have
    "(if c = 0x2D then StrUnsignedDecimalLiteral True t
      else if c = 0x2B then StrUnsignedDecimalLiteral False t
      else StrUnsignedDecimalLiteral False (c # t)) = Some (l, [])"
    by (simp add: StrDecimalLiteral_def)
  then show ?thesis
    using Unsigned_append [OF _ assms(2), of True t l] Unsigned_append [OF _ assms(2), of False t l]
      Unsigned_append [OF _ assms(2), of False "c # t" l] Cons
    by (auto simp: StrDecimalLiteral_def split: if_splits)
qed

lemma ws_not_literal_start:
  assumes "is_ws c"
  shows "c \<noteq> 0x2D" "c \<noteq> 0x2B" "c \<noteq> 0x49" "c \<noteq> 0x2E" "\<not> is_digit c"
  using assms by (auto simp: is_ws_def is_digit_def word_le_nat_alt)

lemma StrDecimalLiteral_head:
  assumes "StrDecimalLiteral s = Some x"
  shows "s \<noteq> [] \<and> \<not> is_ws (hd s)"
proof (cases s)
  case Nil
  with assms show ?thesis by (simp add: StrDecimalLiteral_def)
next
  case (Cons c t)
  have "StrDecimalLiteral (c # t) = None" if "is_ws c"
    using ws_not_literal_start [OF that]
    by (simp add: StrDecimalLiteral_def StrUnsignedDecimalLiteral_def js_def)
  with assms Cons show ?thesis by auto
qed

lemma dropWhile_ws:
  assumes "\<forall>c\<in>set ws. is_ws c" and "StrDecimalLiteral p = Some x"
  shows "dropWhile is_ws (ws @ p @ r) = p @ r"
proof -
  from StrDecimalLiteral_head [OF assms(2)] have "dropWhile is_ws (p @ r) = p @ r"
    by (cases p) simp_all
  with assms(1) show ?thesis
    by (simp add: dropWhile_append2)
qed

lemma to_double_not_NaN: "to_double neg n d \<noteq> NaN"
  by (simp add: to_double_def Let_def)

lemma StringNumericValue_not_NaN: "StringNumericValue l \<noteq> NaN"
  by (cases l) (simp_all add: to_double_not_NaN)

lemma parseFloat_string_prefix:
  assumes "\<forall>c\<in>set ws. is_ws c" and "StrDecimalLiteral p = Some (l, [])" and "ends_literal r"
  shows "parseFloat_string (ws @ p @ r) = StringNumericValue l"
  using StrDecimalLiteral_append [OF assms(2,3)] dropWhile_ws [OF assms(1,2)]
  by (simp add: parseFloat_string_def)

lemma Unsigned_Some_iff:
  "(\<exists>y. StrUnsignedDecimalLiteral neg s = Some y) \<longleftrightarrow>
     take 8 s = js ''Infinity'' \<or> takeWhile is_digit s \<noteq> [] \<or>
     (\<exists>d t. s = 0x2E # d # t \<and> is_digit d)"
proof (cases "take 8 s = js ''Infinity''")
  case True
  then show ?thesis by (simp add: StrUnsignedDecimalLiteral_def)
next
  case inf: False
  show ?thesis
  proof (cases s)
    case Nil
    with inf show ?thesis by (simp add: StrUnsignedDecimalLiteral_def)
  next
    case (Cons c t)
    show ?thesis
    proof (cases "is_digit c")
      case True
      with inf Cons show ?thesis
        by (auto simp: StrUnsignedDecimalLiteral_def Let_def split: list.splits prod.splits)
    next
      case False
      with inf Cons show ?thesis
        by (cases t) (auto simp: StrUnsignedDecimalLiteral_def Let_def split: prod.splits)
    qed
  qed
qed

lemma Unsigned_append_Some:
  assumes "StrUnsignedDecimalLiteral neg s = Some x"
  shows "\<exists>y. StrUnsignedDecimalLiteral neg (s @ r) = Some y"
proof -
  from assms have "take 8 s = js ''Infinity'' \<or> takeWhile is_digit s \<noteq> [] \<or>
     (\<exists>d t. s = 0x2E # d # t \<and> is_digit d)"
    using Unsigned_Some_iff [of neg s] by blast
  then have "take 8 (s @ r) = js ''Infinity'' \<or> takeWhile is_digit (s @ r) \<noteq> [] \<or>
     (\<exists>d t. s @ r = 0x2E # d # t \<and> is_digit d)"
  proof (elim disjE)
    assume "take 8 s = js ''Infinity''"
    then show ?thesis by (simp only: Infinity_take(1)) simp
  next
    assume "takeWhile is_digit s \<noteq> []"
    then show ?thesis by (cases s) (auto split: if_splits)
  next
    assume "\<exists>d t. s = 0x2E # d # t \<and> is_digit d"
    then show ?thesis by auto
  qed
  then show ?thesis
    using Unsigned_Some_iff [of neg "s @ r"] by blast
qed

lemma StrDecimalLiteral_append_Some:
  assumes "StrDecimalLiteral s = Some x"
  shows "\<exists>y. StrDecimalLiteral (s @ r) = Some y"
proof (cases s)
  case Nil
  with assms show ?thesis by (simp add: StrDecimalLiteral_def)
next
  case (Cons c t)
  with assms show ?thesis
    using Unsigned_append_Some [of True t _ r] Unsigned_append_Some [of False t _ r]
      Unsigned_append_Some [of False "c # t" _ r]
    by (auto simp: StrDecimalLiteral_def split: if_splits)
qed

lemma parseFloat_string_not_NaN:
  assumes "\<forall>c\<in>set ws. is_ws c" and "StrDecimalLiteral p = Some x"
  shows "parseFloat_string (ws @ p @ r) \<noteq> NaN"
proof -
  obtain l r' where "StrDecimalLiteral (p @ r) = Some (l, r')"
    using StrDecimalLiteral_append_Some [OF assms(2), of r] by auto
  then show ?thesis
    using dropWhile_ws [OF assms, of r] by (simp add: parseFloat_string_def StringNumericValue_not_NaN)
qed

lemma ExponentPart_unfold:
  assumes "c = 0x65 \<or> c = 0x45"
  shows "ExponentPart (c # w) =
        (let u = (case w of [] \<Rightarrow> w | x # v \<Rightarrow> if x = 0x2D \<or> x = 0x2B then v else w);
             neg = (case w of [] \<Rightarrow> False | x # v \<Rightarrow> x = 0x2D)
         in if takeWhile is_digit u = [] then (0, c # w)
            else (if neg then - int (dec (takeWhile is_digit u)) else int (dec (takeWhile is_digit u)),
                  dropWhile is_digit u))"
  using assms by (auto simp: ExponentPart_def Let_def split: list.splits)

lemma ExponentPart_other: "\<not> (c = 0x65 \<or> c = 0x45) \<Longrightarrow> ExponentPart (c # w) = (0, c # w)"
  by (simp add: ExponentPart_def)

lemma ExponentPart_Nil: "ExponentPart [] = (0, [])"
  by (simp add: ExponentPart_def)

lemma digit_not_sign: "is_digit c \<Longrightarrow> c \<noteq> 0x2D \<and> c \<noteq> 0x2B \<and> c \<noteq> 0x2E \<and> c \<noteq> 0x65 \<and> c \<noteq> 0x45"
  by (auto simp: is_digit_def)

lemma ExponentPart_suffix: "suffix (snd (ExponentPart s)) s"
proof (cases s)
  case Nil
  then show ?thesis by (simp add: ExponentPart_Nil)
next
  case (Cons c w)
  show ?thesis
  proof (cases "c = 0x65 \<or> c = 0x45")
    case False
    then show ?thesis by (simp add: Cons ExponentPart_other)
  next
    case True
    define u where "u = (case w of [] \<Rightarrow> w | x # v \<Rightarrow> if x = 0x2D \<or> x = 0x2B then v else w)"
    have "suffix u w"
      by (auto simp: u_def suffix_Cons split: list.splits)
    then have "suffix (dropWhile is_digit u) (c # w)"
      using suffix_dropWhile [of is_digit u] by (meson suffix_ConsI suffix_order.trans)
    then show ?thesis
      by (simp add: Cons ExponentPart_unfold [OF True] Let_def flip: u_def)
  qed
qed

text \<open>What \<open>ExponentPart\<close> consumes is an exponent part by itself.\<close>

lemma ExponentPart_exponent:
  assumes "ExponentPart x = (e, r')" and "r' \<noteq> x"
  shows "\<exists>c w. x = c # w \<and> (c = 0x65 \<or> c = 0x45)"
proof (cases x)
  case Nil
  with assms show ?thesis by (simp add: ExponentPart_Nil)
next
  case (Cons c w)
  have "c = 0x65 \<or> c = 0x45"
  proof (rule ccontr)
    assume "\<not> (c = 0x65 \<or> c = 0x45)"
    then have "ExponentPart (c # w) = (0, c # w)" by (rule ExponentPart_other)
    with assms Cons show False by simp
  qed
  with Cons show ?thesis by simp
qed

lemma ExponentPart_consumed:
  assumes "ExponentPart s = (e, r')"
  shows "\<exists>q. s = q @ r' \<and> ExponentPart q = (e, []) \<and> (q \<noteq> [] \<longrightarrow> hd q = hd s)"
proof (cases "r' = s")
  case True
  have "e = 0"
  proof (cases s)
    case Nil
    with assms show ?thesis by (simp add: ExponentPart_Nil)
  next
    case (Cons c w)
    show ?thesis
    proof (cases "c = 0x65 \<or> c = 0x45")
      case False
      with assms Cons show ?thesis by (simp add: ExponentPart_other)
    next
      case ce: True
      define u where "u = (case w of [] \<Rightarrow> w | x # v \<Rightarrow> if x = 0x2D \<or> x = 0x2B then v else w)"
      have "suffix u w"
        by (auto simp: u_def suffix_Cons split: list.splits)
      then have "length (dropWhile is_digit u) \<le> length w"
        using suffix_dropWhile [of is_digit u] by (meson suffix_length_le order_trans)
      then have "dropWhile is_digit u \<noteq> c # w"
        by auto
      with assms Cons True show ?thesis
        by (auto simp: ExponentPart_unfold [OF ce] Let_def split: if_splits simp flip: u_def)
    qed
  qed
  with True show ?thesis
    by (intro exI [of _ "[]"]) (simp add: ExponentPart_Nil)
next
  case False
  from ExponentPart_exponent [OF assms False]
  obtain c w where s: "s = c # w" and ce: "c = 0x65 \<or> c = 0x45"
    by auto
  define u where "u = (case w of [] \<Rightarrow> w | x # v \<Rightarrow> if x = 0x2D \<or> x = 0x2B then v else w)"
  define neg where "neg = (case w of [] \<Rightarrow> False | x # v \<Rightarrow> x = 0x2D)"
  define ds where "ds = takeWhile is_digit u"
  from assms False s have ds: "ds \<noteq> []" and r': "r' = dropWhile is_digit u"
    and e: "e = (if neg then - int (dec ds) else int (dec ds))"
    by (auto simp: ExponentPart_unfold [OF ce] Let_def u_def neg_def ds_def split: if_splits)
  obtain sg where w: "w = sg @ u" and sg: "sg = [] \<or> sg = [0x2D] \<or> sg = [0x2B]"
    and sgn: "sg = [] \<longrightarrow> (case u of [] \<Rightarrow> True | x # v \<Rightarrow> \<not> (x = 0x2D \<or> x = 0x2B))"
    and negs: "neg = (sg = [0x2D])"
    by (cases w; cases "hd w = 0x2D"; cases "hd w = 0x2B") (auto simp: u_def neg_def)
  have u: "u = ds @ r'"
    by (simp add: ds_def r')
  have dsd: "\<forall>x\<in>set ds. is_digit x"
    by (auto simp: ds_def dest: set_takeWhileD)
  then have tk: "takeWhile is_digit ds = ds" "dropWhile is_digit ds = []"
    by simp_all
  obtain d0 dt where d0: "ds = d0 # dt" "is_digit d0"
    using ds dsd by (cases ds) auto
  let ?q = "c # sg @ ds"
  have uq: "(case sg @ ds of [] \<Rightarrow> sg @ ds | x # v \<Rightarrow> if x = 0x2D \<or> x = 0x2B then v else sg @ ds) = ds"
    using sg d0 digit_not_sign [OF d0(2)] by auto
  have nq: "(case sg @ ds of [] \<Rightarrow> False | x # v \<Rightarrow> x = 0x2D) = neg"
    using sg d0 digit_not_sign [OF d0(2)] negs by auto
  have "ExponentPart ?q = (e, [])"
    using ds e by (simp add: ExponentPart_unfold [OF ce] uq nq tk)
  moreover have "s = ?q @ r'"
    by (simp add: s w u)
  ultimately show ?thesis
    using s by (intro exI [of _ ?q]) simp
qed

text \<open>After a complete exponent part, or after none, only what is appended can be left.\<close>

lemma ExponentPart_greedy:
  assumes "ExponentPart x = (e, [])"
  shows "\<exists>e' r'. ExponentPart (x @ r) = (e', r') \<and> suffix r' r"
proof (cases x)
  case Nil
  then show ?thesis
    using ExponentPart_suffix [of r] by (cases "ExponentPart r") auto
next
  case (Cons c w)
  from ExponentPart_exponent [OF assms] Cons have ce: "c = 0x65 \<or> c = 0x45"
    by auto
  define u where "u = (case w of [] \<Rightarrow> w | x # v \<Rightarrow> if x = 0x2D \<or> x = 0x2B then v else w)"
  from assms Cons have tw: "takeWhile is_digit u \<noteq> []" and dw: "dropWhile is_digit u = []"
    by (auto simp: ExponentPart_unfold [OF ce] Let_def u_def split: if_splits)
  from tw have "u \<noteq> []" by auto
  then have "w \<noteq> []" by (auto simp: u_def)
  then have u': "(case w @ r of [] \<Rightarrow> w @ r | x # v \<Rightarrow> if x = 0x2D \<or> x = 0x2B then v else w @ r) = u @ r"
    by (auto simp: u_def split: list.splits)
  have all: "\<forall>x\<in>set u. is_digit x"
    using dw by (simp add: dropWhile_eq_Nil_conv)
  then have tk: "takeWhile is_digit (u @ r) = u @ takeWhile is_digit r"
    "dropWhile is_digit (u @ r) = dropWhile is_digit r"
    by (simp_all add: takeWhile_append2 dropWhile_append2)
  have "snd (ExponentPart (x @ r)) = dropWhile is_digit r"
    using \<open>u \<noteq> []\<close> by (simp add: Cons ExponentPart_unfold [OF ce] Let_def u' tk)
  then show ?thesis
    using suffix_dropWhile [of is_digit r] by (cases "ExponentPart (x @ r)") auto
qed

lemma takeWhile_more:
  assumes "dropWhile P xs = []"
  shows "takeWhile P (xs @ r) = xs @ takeWhile P r" and "dropWhile P (xs @ r) = dropWhile P r"
  using assms by (simp_all add: dropWhile_eq_Nil_conv takeWhile_append2 dropWhile_append2)

lemma takeWhile_cut:
  assumes "x = [] \<or> \<not> P (hd x)" and "\<forall>y\<in>set ds. P y"
  shows "takeWhile P (ds @ x) = ds" and "dropWhile P (ds @ x) = x"
proof -
  have "takeWhile P x = []" "dropWhile P x = x"
    using assms(1) by (cases x; auto)+
  then show "takeWhile P (ds @ x) = ds" "dropWhile P (ds @ x) = x"
    using assms(2) by (simp_all add: takeWhile_append2 dropWhile_append2)
qed

lemma dropWhile_head: "dropWhile P xs = [] \<or> \<not> P (hd (dropWhile P xs))"
  by (metis hd_dropWhile)

lemma Unsigned_not_Infinity:
  assumes "s = [] \<or> is_digit (hd s) \<or> hd s = 0x2E"
  shows "take 8 s \<noteq> js ''Infinity''"
  using assms digit_not_I [of "hd s"] by (cases s) (auto simp: js_def)

lemma Unsigned_consumed:
  assumes "StrUnsignedDecimalLiteral neg s = Some (l, r')"
  shows "\<exists>q. s = q @ r' \<and> StrUnsignedDecimalLiteral neg q = Some (l, [])"
proof (cases "take 8 s = js ''Infinity''")
  case True
  have "length (take 8 s) = 8" by (simp add: True js_def)
  then have "take 8 (take 8 s) = js ''Infinity''" "drop 8 (take 8 s) = []"
    using True by simp_all
  then have "StrUnsignedDecimalLiteral neg (take 8 s) = Some (Infinity neg, [])"
    by (simp add: StrUnsignedDecimalLiteral_def)
  moreover have "l = Infinity neg" "r' = drop 8 s"
    using assms True by (simp_all add: StrUnsignedDecimalLiteral_def)
  ultimately show ?thesis
    by (intro exI [of _ "take 8 s"]) simp
next
  case inf: False
  define ip where "ip = takeWhile is_digit s"
  have ipd: "\<forall>y\<in>set ip. is_digit y"
    by (auto simp: ip_def dest: set_takeWhileD)
  have s: "s = ip @ dropWhile is_digit s"
    by (simp add: ip_def)
  show ?thesis
  proof (cases "dropWhile is_digit s")
    case Nil
    with assms inf have "r' = []"
      by (auto simp: StrUnsignedDecimalLiteral_def Let_def split: if_splits)
    with assms show ?thesis by (intro exI [of _ s]) simp
  next
    case (Cons c t)
    have cnd: "\<not> is_digit c"
      using dropWhile_head [of is_digit s] Cons by simp
    show ?thesis
    proof (cases "c = 0x2E")
      case dot: True
      define fp where "fp = takeWhile is_digit t"
      have fpd: "\<forall>y\<in>set fp. is_digit y"
        by (auto simp: fp_def dest: set_takeWhileD)
      obtain e r0 where ex: "ExponentPart (dropWhile is_digit t) = (e, r0)"
        by (cases "ExponentPart (dropWhile is_digit t)")
      from assms inf Cons dot ex
      have l: "\<not> (ip = [] \<and> fp = [])" "r0 = r'"
        "l = Decimal neg (dec (ip @ fp)) (e - int (length fp))"
        by (auto simp: StrUnsignedDecimalLiteral_def Let_def ip_def fp_def split: if_splits)
      from ExponentPart_consumed [OF ex] l(2)
      obtain x where x: "dropWhile is_digit t = x @ r'" "ExponentPart x = (e, [])"
        "x \<noteq> [] \<longrightarrow> hd x = hd (dropWhile is_digit t)"
        by auto
      have xh: "x = [] \<or> \<not> is_digit (hd x)"
        using x(3) dropWhile_head [of is_digit t] x(1) by auto
      let ?q = "ip @ 0x2E # fp @ x"
      have t: "t = fp @ x @ r'"
        unfolding fp_def x(1) [symmetric] by (rule takeWhile_dropWhile_id [symmetric])
      have q1: "takeWhile is_digit ?q = ip" "dropWhile is_digit ?q = 0x2E # fp @ x"
        using takeWhile_cut [of "0x2E # fp @ x" is_digit ip] ipd
        by (simp_all add: is_digit_def)
      have q2: "takeWhile is_digit (fp @ x) = fp" "dropWhile is_digit (fp @ x) = x"
        using takeWhile_cut [OF xh fpd] by simp_all
      have "?q = [] \<or> is_digit (hd ?q) \<or> hd ?q = 0x2E"
        using ipd by (cases ip) auto
      then have q0: "take 8 ?q \<noteq> js ''Infinity''"
        by (rule Unsigned_not_Infinity)
      have "StrUnsignedDecimalLiteral neg ?q = Some (l, [])"
        unfolding StrUnsignedDecimalLiteral_def q1 Let_def
        using q0 l x(2) by (simp add: q2)
      moreover have "s = ?q @ r'"
        using s Cons dot t by simp
      ultimately show ?thesis by blast
    next
      case nodot: False
      obtain e r0 where ex: "ExponentPart (c # t) = (e, r0)"
        by (cases "ExponentPart (c # t)")
      from assms inf Cons nodot ex
      have l: "ip \<noteq> []" "r0 = r'" "l = Decimal neg (dec ip) e"
        by (auto simp: StrUnsignedDecimalLiteral_def Let_def ip_def split: if_splits)
      from ExponentPart_consumed [OF ex] l(2)
      obtain x where x: "c # t = x @ r'" "ExponentPart x = (e, [])" "x \<noteq> [] \<longrightarrow> hd x = c"
        by auto
      have xh: "x = [] \<or> \<not> is_digit (hd x)"
        using x(3) cnd by auto
      let ?q = "ip @ x"
      have q1: "takeWhile is_digit ?q = ip" "dropWhile is_digit ?q = x"
        using takeWhile_cut [OF xh ipd] by simp_all
      have "?q = [] \<or> is_digit (hd ?q) \<or> hd ?q = 0x2E"
        using ipd l(1) by (cases ip) auto
      then have q0: "take 8 ?q \<noteq> js ''Infinity''"
        by (rule Unsigned_not_Infinity)
      have "StrUnsignedDecimalLiteral neg ?q = Some (l, [])"
      proof (cases x)
        case Nil
        with x(2) have "e = 0" by (simp add: ExponentPart_Nil)
        with Nil show ?thesis
          unfolding StrUnsignedDecimalLiteral_def q1 Let_def using q0 l by simp
      next
        case (Cons c' t')
        with x(3) have "c' = c" by simp
        with Cons show ?thesis
          unfolding StrUnsignedDecimalLiteral_def q1 Let_def using q0 l nodot x(2) by simp
      qed
      moreover have "s = ?q @ r'"
        using s Cons x(1) by simp
      ultimately show ?thesis by blast
    qed
  qed
qed

lemma Unsigned_digits:
  assumes "take 8 s \<noteq> js ''Infinity''" and "dropWhile is_digit s = []"
    and "takeWhile is_digit s \<noteq> []"
  shows "StrUnsignedDecimalLiteral neg s = Some (Decimal neg (dec (takeWhile is_digit s)) 0, [])"
  unfolding StrUnsignedDecimalLiteral_def Let_def assms(2) using assms(1,3) by simp

lemma Unsigned_dot:
  assumes "take 8 s \<noteq> js ''Infinity''" and "dropWhile is_digit s = 0x2E # t"
    and "ExponentPart (dropWhile is_digit t) = (e, r)"
    and "\<not> (takeWhile is_digit s = [] \<and> takeWhile is_digit t = [])"
  shows "StrUnsignedDecimalLiteral neg s =
      Some (Decimal neg (dec (takeWhile is_digit s @ takeWhile is_digit t))
        (e - int (length (takeWhile is_digit t))), r)"
  unfolding StrUnsignedDecimalLiteral_def Let_def assms(2) using assms(1,3,4) by auto

lemma Unsigned_exponent:
  assumes "take 8 s \<noteq> js ''Infinity''" and "dropWhile is_digit s = c # t" and "c \<noteq> 0x2E"
    and "ExponentPart (c # t) = (e, r)" and "takeWhile is_digit s \<noteq> []"
  shows "StrUnsignedDecimalLiteral neg s = Some (Decimal neg (dec (takeWhile is_digit s)) e, r)"
  unfolding StrUnsignedDecimalLiteral_def Let_def assms(2) using assms(1,3,4,5) by auto

lemma Unsigned_greedy:
  assumes "StrUnsignedDecimalLiteral neg p = Some (l, [])"
  shows "\<exists>l' r'. StrUnsignedDecimalLiteral neg (p @ r) = Some (l', r') \<and> suffix r' r"
proof (cases "take 8 p = js ''Infinity''")
  case True
  have "StrUnsignedDecimalLiteral neg (p @ r) = Some (Infinity neg, drop 8 p @ r)"
    unfolding StrUnsignedDecimalLiteral_def Infinity_take [OF True] by simp
  moreover have "drop 8 p = []"
    using assms unfolding StrUnsignedDecimalLiteral_def True by simp
  ultimately show ?thesis by simp
next
  case False
  from Unsigned_head [OF assms False]
  have inf: "take 8 (p @ r) \<noteq> js ''Infinity''"
    using digit_not_I [of "hd p"] by (intro Infinity_head) auto
  let ?ip = "takeWhile is_digit p"
  show ?thesis
  proof (cases "dropWhile is_digit p")
    case Nil
    from assms False Nil have ip: "?ip \<noteq> []"
      by (auto simp: StrUnsignedDecimalLiteral_def Let_def split: if_splits)
    note tk = takeWhile_more [OF Nil, of r]
    have ip': "takeWhile is_digit (p @ r) \<noteq> []"
      using ip tk(1) Nil by (auto simp: dropWhile_eq_Nil_conv)
    show ?thesis
    proof (cases "dropWhile is_digit r")
      case Nil
      with tk(2) have "dropWhile is_digit (p @ r) = []" by simp
      from Unsigned_digits [OF inf this ip', of neg] show ?thesis by simp
    next
      case (Cons c t)
      have d: "suffix (c # t) r"
        using suffix_dropWhile [of is_digit r] Cons by simp
      from Cons tk(2) have dw: "dropWhile is_digit (p @ r) = c # t" by simp
      show ?thesis
      proof (cases "c = 0x2E")
        case True
        obtain e r0 where ex: "ExponentPart (dropWhile is_digit t) = (e, r0)"
          by (cases "ExponentPart (dropWhile is_digit t)")
        have "suffix r0 (dropWhile is_digit t)"
          using ExponentPart_suffix [of "dropWhile is_digit t"] ex by simp
        then have "suffix r0 r"
          using suffix_dropWhile [of is_digit t] d
          by (meson suffix_ConsD suffix_order.trans)
        moreover from dw True have "dropWhile is_digit (p @ r) = 0x2E # t" by simp
        from Unsigned_dot [OF inf this ex, of neg] ip'
        have "\<exists>l'. StrUnsignedDecimalLiteral neg (p @ r) = Some (l', r0)" by simp
        ultimately show ?thesis by blast
      next
        case False
        obtain e r0 where ex: "ExponentPart (c # t) = (e, r0)"
          by (cases "ExponentPart (c # t)")
        have "suffix r0 (c # t)"
          using ExponentPart_suffix [of "c # t"] ex by simp
        then have "suffix r0 r"
          using d by (meson suffix_order.trans)
        moreover from Unsigned_exponent [OF inf dw False ex ip', of neg]
        have "\<exists>l'. StrUnsignedDecimalLiteral neg (p @ r) = Some (l', r0)" by simp
        ultimately show ?thesis by blast
      qed
    qed
  next
    case (Cons c t)
    note tk = takeWhile_stop [OF Cons, of r]
    show ?thesis
    proof (cases "c = 0x2E")
      case dot: True
      let ?fp = "takeWhile is_digit t"
      obtain e r0 where ex: "ExponentPart (dropWhile is_digit t) = (e, r0)"
        by (cases "ExponentPart (dropWhile is_digit t)")
      from assms False Cons dot ex
      have l: "\<not> (?ip = [] \<and> ?fp = [])" "r0 = []"
        by (auto simp: StrUnsignedDecimalLiteral_def Let_def split: if_splits)
      have "\<exists>e' r'. \<not> (?ip = [] \<and> takeWhile is_digit (t @ r) = []) \<and>
          ExponentPart (dropWhile is_digit (t @ r)) = (e', r') \<and> suffix r' r"
      proof (cases "dropWhile is_digit t")
        case Nil
        note t = takeWhile_more [OF Nil, of r]
        obtain e' r' where ex': "ExponentPart (dropWhile is_digit r) = (e', r')"
          by (cases "ExponentPart (dropWhile is_digit r)")
        have "suffix r' (dropWhile is_digit r)"
          using ExponentPart_suffix [of "dropWhile is_digit r"] ex' by simp
        then have "suffix r' r"
          using suffix_dropWhile [of is_digit r] by (meson suffix_order.trans)
        moreover have "?fp = t"
          using Nil by (simp add: dropWhile_eq_Nil_conv)
        ultimately show ?thesis
          using l(1) ex' unfolding t by auto
      next
        case c2: (Cons c' t')
        from ExponentPart_greedy [of "c' # t'" e r] ex l(2) c2
        obtain e' r' where "ExponentPart ((c' # t') @ r) = (e', r')" "suffix r' r"
          by auto
        then show ?thesis
          using takeWhile_stop [OF c2, of r] l(1) by auto
      qed
      then obtain e' r' where "\<not> (?ip = [] \<and> takeWhile is_digit (t @ r) = [])"
        "ExponentPart (dropWhile is_digit (t @ r)) = (e', r')" "suffix r' r"
        by blast
      then show ?thesis
        using inf tk dot by (auto simp: StrUnsignedDecimalLiteral_def Let_def)
    next
      case nodot: False
      obtain e r0 where ex: "ExponentPart (c # t) = (e, r0)"
        by (cases "ExponentPart (c # t)")
      from assms False Cons nodot ex
      have l: "?ip \<noteq> []" "r0 = []"
        by (auto simp: StrUnsignedDecimalLiteral_def Let_def split: if_splits)
      from ExponentPart_greedy [of "c # t" e r] ex l(2)
      obtain e' r' where "ExponentPart ((c # t) @ r) = (e', r')" "suffix r' r"
        by auto
      then show ?thesis
        using l inf tk nodot by (auto simp: StrUnsignedDecimalLiteral_def Let_def)
    qed
  qed
qed

lemma StrDecimalLiteral_consumed:
  assumes "StrDecimalLiteral s = Some (l, r')"
  shows "\<exists>q. s = q @ r' \<and> StrDecimalLiteral q = Some (l, [])"
proof (cases s)
  case Nil
  with assms show ?thesis by (simp add: StrDecimalLiteral_def)
next
  case (Cons c t)
  show ?thesis
  proof (cases "c = 0x2D \<or> c = 0x2B")
    case True
    with assms Cons have "StrUnsignedDecimalLiteral (c = 0x2D) t = Some (l, r')"
      by (auto simp: StrDecimalLiteral_def split: if_splits)
    from Unsigned_consumed [OF this]
    obtain q where "t = q @ r'" "StrUnsignedDecimalLiteral (c = 0x2D) q = Some (l, [])"
      by auto
    with True Cons show ?thesis
      by (intro exI [of _ "c # q"]) (auto simp: StrDecimalLiteral_def)
  next
    case False
    with assms Cons have u: "StrUnsignedDecimalLiteral False s = Some (l, r')"
      by (auto simp: StrDecimalLiteral_def split: if_splits)
    from Unsigned_consumed [OF this]
    obtain q where q: "s = q @ r'" "StrUnsignedDecimalLiteral False q = Some (l, [])"
      by auto
    have "q \<noteq> []"
      using q(2) by (auto simp: StrUnsignedDecimalLiteral_def js_def)
    then have "hd q = c"
      using q(1) Cons by (cases q) auto
    with False q \<open>q \<noteq> []\<close> show ?thesis
      by (intro exI [of _ q]) (cases q; auto simp: StrDecimalLiteral_def)
  qed
qed

lemma StrDecimalLiteral_greedy:
  assumes "StrDecimalLiteral p = Some (l, [])"
  shows "\<exists>l' r'. StrDecimalLiteral (p @ r) = Some (l', r') \<and> suffix r' r"
proof (cases p)
  case Nil
  with assms show ?thesis by (simp add: StrDecimalLiteral_def)
next
  case (Cons c t)
  with assms have
    "(if c = 0x2D then StrUnsignedDecimalLiteral True t
      else if c = 0x2B then StrUnsignedDecimalLiteral False t
      else StrUnsignedDecimalLiteral False (c # t)) = Some (l, [])"
    by (simp add: StrDecimalLiteral_def)
  then show ?thesis
    using Unsigned_greedy [of True t l r] Unsigned_greedy [of False t l r]
      Unsigned_greedy [of False "c # t" l r] Cons
    by (auto simp: StrDecimalLiteral_def split: if_splits)
qed

lemma longest_literal_parse:
  assumes "StrDecimalLiteral p = Some (l, [])" and "longest_literal p r"
  shows "StrDecimalLiteral (p @ r) = Some (l, r)"
proof -
  from StrDecimalLiteral_greedy [OF assms(1), of r]
  obtain l' r' where parse: "StrDecimalLiteral (p @ r) = Some (l', r')" and "suffix r' r"
    by auto
  then obtain x where r: "r = x @ r'"
    by (auto simp: suffix_def)
  from StrDecimalLiteral_consumed [OF parse]
  obtain q where q: "p @ r = q @ r'" "StrDecimalLiteral q = Some (l', [])"
    by auto
  from q(1) r have qx: "q = p @ x" by simp
  have "x = []"
  proof (rule ccontr)
    assume "x \<noteq> []"
    then have "1 \<le> length x" "length x < Suc (length r)"
      using r by (simp_all add: Suc_le_eq)
    then have n: "length x \<in> set [1..<Suc (length r)]"
      unfolding set_upt by (simp only: atLeastLessThan_iff)
    have "take (length x) r = x"
      using r by simp
    with q(2) qx have "is_literal (p @ take (length x) r)"
      by (simp add: is_literal_def)
    with assms(2) n show False
      by (auto simp: longest_literal_def list_all_iff)
  qed
  with qx q(2) assms(1) parse r show ?thesis by simp
qed

lemma parse_longest:
  assumes "StrDecimalLiteral s = Some (l, r')"
  shows "\<exists>q. s = q @ r' \<and> StrDecimalLiteral q = Some (l, []) \<and> longest_literal q r'"
proof -
  from StrDecimalLiteral_consumed [OF assms]
  obtain q where q: "s = q @ r'" "StrDecimalLiteral q = Some (l, [])"
    by auto
  have "\<not> is_literal (q @ take n r')" if "n \<in> set [1..<Suc (length r')]" for n
  proof
    assume "is_literal (q @ take n r')"
    then obtain l0 where "StrDecimalLiteral (q @ take n r') = Some (l0, [])"
      by (auto simp: is_literal_def split: option.splits)
    from StrDecimalLiteral_greedy [OF this, of "drop n r'"]
    obtain l1 r1 where "StrDecimalLiteral (q @ r') = Some (l1, r1)" "suffix r1 (drop n r')"
      by auto
    with assms q(1) have "suffix r' (drop n r')"
      by simp
    then have "length r' \<le> length r' - n"
      using suffix_length_le by fastforce
    with that show False
      by auto
  qed
  then have "longest_literal q r'"
    by (simp add: longest_literal_def list_all_iff)
  with q show ?thesis by blast
qed

lemma literal_prefix_parse:
  assumes "StrDecimalLiteral p = Some (l, [])"
  shows "\<exists>q l' r'. prefix p q \<and> p @ r = q @ r' \<and> StrDecimalLiteral q = Some (l', []) \<and>
     longest_literal q r' \<and> StrDecimalLiteral (p @ r) = Some (l', r')"
proof -
  from StrDecimalLiteral_greedy [OF assms(1), of r]
  obtain l' r' where parse: "StrDecimalLiteral (p @ r) = Some (l', r')" and "suffix r' r"
    by auto
  then obtain x where r: "r = x @ r'"
    by (auto simp: suffix_def)
  from parse_longest [OF parse]
  obtain q where q: "p @ r = q @ r'" "StrDecimalLiteral q = Some (l', [])" "longest_literal q r'"
    by auto
  from q(1) r have "q = p @ x" by simp
  with q parse show ?thesis by auto
qed

lemma unsigned_start_iff:
  "(\<exists>y. StrUnsignedDecimalLiteral neg s = Some y) \<longleftrightarrow> unsigned_start s"
proof -
  have "takeWhile is_digit s \<noteq> [] \<longleftrightarrow> (case s of [] \<Rightarrow> False | c # t \<Rightarrow> is_digit c)"
    by (cases s) auto
  moreover have "(\<exists>d t. s = 0x2E # d # t \<and> is_digit d) \<longleftrightarrow>
      (case s of [] \<Rightarrow> False | c # t \<Rightarrow> c = 0x2E \<and> (case t of [] \<Rightarrow> False | d # _ \<Rightarrow> is_digit d))"
    by (auto split: list.splits)
  ultimately show ?thesis
    unfolding Unsigned_Some_iff unsigned_start_def by (cases s) auto
qed

lemma numeric_start_iff: "(\<exists>y. StrDecimalLiteral s = Some y) \<longleftrightarrow> numeric_start s"
  using unsigned_start_iff [of True "tl s"] unsigned_start_iff [of False "tl s"]
    unsigned_start_iff [of False s]
  by (cases s) (auto simp: StrDecimalLiteral_def numeric_start_def)

lemma parseFloat_string_NaN_iff:
  "parseFloat_string s = NaN \<longleftrightarrow> \<not> numeric_start (dropWhile is_ws s)"
  using numeric_start_iff [of "dropWhile is_ws s"]
  by (auto simp: parseFloat_string_def StringNumericValue_not_NaN split: option.splits)

lemma digits_literal:
  assumes "ds \<noteq> []" and "list_all is_digit ds"
  shows "StrDecimalLiteral ds = Some (Decimal False (dec ds) 0, [])"
proof -
  obtain c t where ds: "ds = c # t" "is_digit c"
    using assms by (cases ds) auto
  have all: "\<forall>x\<in>set ds. is_digit x"
    using assms(2) by (simp add: list_all_iff)
  then have tk: "takeWhile is_digit ds = ds" "dropWhile is_digit ds = []"
    by simp_all
  have "take 8 ds \<noteq> js ''Infinity''"
    using ds by (intro Unsigned_not_Infinity) simp
  from Unsigned_digits [OF this tk(2), of False] assms(1) tk(1)
  have "StrUnsignedDecimalLiteral False ds = Some (Decimal False (dec ds) 0, [])"
    by simp
  then show ?thesis
    using ds digit_not_sign [OF ds(2)] by (simp add: StrDecimalLiteral_def)
qed

lemma digits_parseFloat:
  assumes "ds \<noteq> []" and "list_all is_digit ds"
  shows "parseFloat_string ds = to_double False (int (dec ds) * 2 ^ 1074) 1"
proof -
  have "ends_literal []" by (simp add: ends_literal_def)
  from parseFloat_string_prefix [of "[]" ds _ "[]", OF _ digits_literal [OF assms] this]
  show ?thesis by simp
qed

section \<open>Evaluation of the examples\<close>

text \<open>
  The examples are evaluated on the model as it stands, by rewriting with its
  definitions. \<open>bitlen\<close> of a numeral is computed bit by bit.
\<close>

lemma bitlen_numeral:
  "bitlen 1 = 1"
  "bitlen (numeral Num.One) = 1"
  "bitlen (numeral (Num.Bit0 n)) = bitlen (numeral n) + 1"
  "bitlen (numeral (Num.Bit1 n)) = bitlen (numeral n) + 1"
proof -
  show "bitlen 1 = 1" by (subst compute_bitlen) simp
  then show "bitlen (numeral Num.One) = 1" by simp
  show "bitlen (numeral (Num.Bit0 n)) = bitlen (numeral n) + 1"
    by (subst compute_bitlen) simp
  show "bitlen (numeral (Num.Bit1 n)) = bitlen (numeral n) + 1"
    by (subst compute_bitlen) simp
qed

lemmas number_eval = to_double_def round53_def round_half_even_def Let_def bitlen_numeral
  double_of_def

lemmas parse_eval = parseFloat_string_def StrDecimalLiteral_def StrUnsignedDecimalLiteral_def
  ExponentPart_def is_ws_def is_digit_def dec_def js_def

lemmas rank_eval = rank_def top5_def sorted_rows_def mapped_def Array_sort_def decorate_def
  compare_def primaryVal_def secondaryVal_def primaryKey_def secondaryKey_def strip_def
  set_prop_def get_prop_def parseFloat_def ToNumber_def isNaN_def js_eq_def
  MAGIC_KEY_def PHYSICAL_KEY_def VALUE_KEY_def character_def

lemma rank_example:
  "rank (QString (js ''magic'')) example_rows =
     [character ''2'' ''10'' ''9'', character ''1'' ''10'' ''5'', character ''3'' '''' ''1'']"
  by (simp add: example_rows_def rank_eval parse_eval number_eval)

lemma rank_tied:
  "rank (QString (js ''magic'')) tied_rows =
     [character ''1'' ''0'' ''0'', character ''2'' ''0'' ''0'', character ''3'' ''0'' ''0'',
      character ''4'' ''0'' ''0'', character ''5'' ''0'' ''0'']"
  by (simp add: tied_rows_def rank_eval parse_eval number_eval)

lemma keys_example:
  "primaryVal MAGIC_KEY (character ''2'' ''10'' ''9'') = double_of 5 1"
  "primaryVal MAGIC_KEY (character ''1'' ''10'' ''5'') = double_of 5 1"
  "secondaryVal VALUE_KEY (character ''2'' ''10'' ''9'') = double_of 9 0"
  "secondaryVal VALUE_KEY (character ''1'' ''10'' ''5'') = double_of 5 0"
  by (simp_all add: rank_eval parse_eval number_eval)

lemma mode_keys:
  "primaryKey (QString (js ''magic'')) = MAGIC_KEY"
  "secondaryKey (QString (js ''magic'')) = VALUE_KEY"
  by (simp_all add: primaryKey_def secondaryKey_def)

text \<open>
  The second example: in the mode \<^verbatim>\<open>value\<close> a tie on the value is broken by the magic
  attack.
\<close>

lemma rank_value_example:
  "rank (QString (js ''value'')) [character ''1'' ''7'' ''3'', character ''2'' ''9'' ''3''] =
     [character ''2'' ''9'' ''3'', character ''1'' ''7'' ''3'']"
  by (simp add: rank_eval parse_eval number_eval)

text \<open>
  Six rows, one with a magic attack that is no number: it ranks as \<open>0\<close>, above the
  negative one, which is cut off. This ranking is computed by the sort on the keys
  (\<open>rank_eq\<close>).
\<close>

lemma keys_mixed:
  "primaryVal MAGIC_KEY (character ''1'' ''3'' '''') = double_of 3 0"
  "primaryVal MAGIC_KEY (character ''2'' ''n/a'' '''') = Fin 0"
  "primaryVal MAGIC_KEY (character ''3'' ''-1'' '''') = double_of (- 1) 0"
  "primaryVal MAGIC_KEY (character ''4'' ''2'' '''') = double_of 1 1"
  "primaryVal MAGIC_KEY (character ''5'' ''1'' '''') = double_of 1 0"
  "primaryVal MAGIC_KEY (character ''6'' ''4'' '''') = double_of 1 2"
  "secondaryVal VALUE_KEY (character i m '''') = Fin 0"
  by (simp_all add: rank_eval parse_eval number_eval)

lemma strip_character: "strip (character i m v) = character i m v"
  by (simp add: strip_def character_def js_def MAGIC_KEY_def VALUE_KEY_def)

lemma rank_mixed:
  "rank (QString (js ''magic'')) mixed_rows =
     [character ''6'' ''4'' '''', character ''1'' ''3'' '''', character ''4'' ''2'' '''',
      character ''5'' ''1'' '''', character ''2'' ''n/a'' '''']"
  by (simp add: mixed_rows_def rank_eq mode_keys sort_key_def sort_key_of_def keys_mixed
      double_of_def strip_character)

section \<open>Claims\<close>

text \<open>
  Claim C1. For every list of rows and every mode, the ranking comes out sorted on two
  levels, descending: of two adjacent output rows the earlier has a primary key \<open>\<ge>\<close> that
  of the later, and where the two primary keys are equal (as numbers), the earlier has a
  secondary key \<open>\<ge>\<close> that of the later.
\<close>

theorem rank_sorted_descending:
  "\<forall>i. Suc i < length (rank type rows) \<longrightarrow>
     js_ge (primaryVal (primaryKey type) (rank type rows ! i))
           (primaryVal (primaryKey type) (rank type rows ! Suc i)) \<and>
     (js_eq (primaryVal (primaryKey type) (rank type rows ! i))
            (primaryVal (primaryKey type) (rank type rows ! Suc i)) \<longrightarrow>
      js_ge (secondaryVal (secondaryKey type) (rank type rows ! i))
            (secondaryVal (secondaryKey type) (rank type rows ! Suc i)))"
proof (intro allI impI)
  fix i
  let ?pk = "primaryKey type" and ?sk = "secondaryKey type"
  let ?T = "take 5 (sort_key (sort_key_of ?pk ?sk) rows)"
  assume "Suc i < length (rank type rows)"
  then have i: "Suc i < length ?T"
    by (simp add: rank_eq)
  have "sorted (map (sort_key_of ?pk ?sk) ?T)"
    by (simp add: take_map [symmetric] sorted_wrt_take)
  then have "sort_key_of ?pk ?sk (?T ! i) \<le> sort_key_of ?pk ?sk (?T ! Suc i)"
    using i by (simp add: sorted_iff_nth_Suc)
  then have le:
    "js_lt (primaryVal ?pk (?T ! Suc i)) (primaryVal ?pk (?T ! i)) \<or>
     primaryVal ?pk (?T ! i) = primaryVal ?pk (?T ! Suc i) \<and>
       (js_lt (secondaryVal ?sk (?T ! Suc i)) (secondaryVal ?sk (?T ! i)) \<or>
        secondaryVal ?sk (?T ! i) = secondaryVal ?sk (?T ! Suc i))"
    by (simp only: sort_key_of_le)
  have out: "rank type rows ! i = strip (?T ! i)" "rank type rows ! Suc i = strip (?T ! Suc i)"
    using i by (simp_all add: rank_eq)
  show "js_ge (primaryVal ?pk (rank type rows ! i)) (primaryVal ?pk (rank type rows ! Suc i)) \<and>
     (js_eq (primaryVal ?pk (rank type rows ! i)) (primaryVal ?pk (rank type rows ! Suc i)) \<longrightarrow>
      js_ge (secondaryVal ?sk (rank type rows ! i)) (secondaryVal ?sk (rank type rows ! Suc i)))"
    unfolding out primaryVal_strip secondaryVal_strip
    using le by (auto simp: js_ge_def js_eq_def js_lt_irrefl primaryVal_not_NaN secondaryVal_not_NaN)
qed

theorem rank_sorted_descending_witness:
  "Suc 0 < length (rank (QString (js ''magic'')) example_rows) \<and>
   js_eq (primaryVal (primaryKey (QString (js ''magic'')))
            (rank (QString (js ''magic'')) example_rows ! 0))
         (primaryVal (primaryKey (QString (js ''magic'')))
            (rank (QString (js ''magic'')) example_rows ! Suc 0)) \<and>
   js_ge (primaryVal (primaryKey (QString (js ''magic'')))
            (rank (QString (js ''magic'')) example_rows ! 0))
         (primaryVal (primaryKey (QString (js ''magic'')))
            (rank (QString (js ''magic'')) example_rows ! Suc 0)) \<and>
   js_ge (secondaryVal (secondaryKey (QString (js ''magic'')))
            (rank (QString (js ''magic'')) example_rows ! 0))
         (secondaryVal (secondaryKey (QString (js ''magic'')))
            (rank (QString (js ''magic'')) example_rows ! Suc 0))"
proof -
  let ?M = "QString (js ''magic'')"
  have len: "Suc 0 < length (rank ?M example_rows)"
    by (simp add: rank_example)
  have eq: "js_eq (primaryVal (primaryKey ?M) (rank ?M example_rows ! 0))
      (primaryVal (primaryKey ?M) (rank ?M example_rows ! Suc 0))"
    by (simp add: rank_example mode_keys keys_example js_eq_def double_of_def)
  from rank_sorted_descending [of ?M example_rows] len eq show ?thesis
    by blast
qed

text \<open>
  Claim C2. For every list of rows and every mode, the ranking returns
  \<open>min 5 (length rows)\<close> rows; the empty list gives the empty list.
\<close>

theorem rank_length: "length (rank type rows) = min 5 (length rows)"
  by (simp add: rank_eq min.commute)


theorem rank_length_witness:
  "length (rank (QString (js ''magic'')) tied_rows) = 5 \<and>
   length (rank (QString (js ''value'')) example_rows) = 3 \<and>
   rank (QString (js ''physical'')) [] = []"
  using rank_length [of "QString (js ''magic'')" tied_rows]
    rank_length [of "QString (js ''value'')" example_rows]
    rank_length [of "QString (js ''physical'')" "[]"]
  by (simp add: tied_rows_def example_rows_def)

text \<open>
  Claim C3. The primary and the secondary key of a row are what \<^verbatim>\<open>parseFloat\<close> reads in the
  field. Where a number starts after the white space of the field (an optional sign, then
  \<^verbatim>\<open>Infinity\<close>, a digit, or a dot and a digit), the key is the number read, and for a
  string of digits it is the double nearest to the integer. Where no number starts there,
  or the field is empty or missing, the key is exactly \<open>0\<close>. No row is left out of the
  ranking for what its fields hold: a row comes out whenever at most five rows have keys
  that put them no lower, every row comes out of an input of at most five, and once the
  rows are fetched the handler answers with the ranking, so that no parse error leaves
  the computation.
\<close>

theorem unparsable_key_is_zero:
  "(get_prop row k = None \<longrightarrow> primaryVal k row = Fin 0 \<and> secondaryVal k row = Fin 0) \<and>
   (get_prop row k = Some (Str []) \<longrightarrow> primaryVal k row = Fin 0 \<and> secondaryVal k row = Fin 0) \<and>
   (\<forall>s. get_prop row k = Some (Str s) \<and> \<not> numeric_start (dropWhile is_ws s) \<longrightarrow>
      primaryVal k row = Fin 0 \<and> secondaryVal k row = Fin 0) \<and>
   (\<forall>s. get_prop row k = Some (Str s) \<and> numeric_start (dropWhile is_ws s) \<longrightarrow>
      parseFloat_string s \<noteq> NaN \<and>
      primaryVal k row = parseFloat_string s \<and> secondaryVal k row = parseFloat_string s) \<and>
   (\<forall>ds. get_prop row k = Some (Str ds) \<and> ds \<noteq> [] \<and> list_all is_digit ds \<longrightarrow>
      primaryVal k row = to_double False (int (dec ds) * 2 ^ 1074) 1 \<and>
      secondaryVal k row = to_double False (int (dec ds) * 2 ^ 1074) 1) \<and>
   (\<forall>r. r \<in> set rows \<and>
        length (filter (\<lambda>x. not_below (primaryKey type) (secondaryKey type) x r) rows) \<le> 5 \<longrightarrow>
      strip r \<in> set (rank type rows)) \<and>
   (length rows \<le> 5 \<longrightarrow> mset (rank type rows) = mset (map strip rows)) \<and>
   (valid_type type \<and> fetchSheetRows e = Inr rows \<longrightarrow>
      top_characters e type =
        (TopCharacters (rank type rows) type (primaryKey type) (secondaryKey type), [Fetch]))"
proof (intro conjI allI impI)
  have undefined: "parseFloat_string (js ''undefined'') = NaN"
    by (simp add: parse_eval)
  have empty: "parseFloat_string [] = NaN"
    by (simp add: parseFloat_string_def StrDecimalLiteral_def)
  {
    assume "get_prop row k = None"
    then show "primaryVal k row = Fin 0" "secondaryVal k row = Fin 0"
      by (simp_all add: primaryVal_def secondaryVal_def parseFloat_def undefined isNaN_def)
  }
  {
    assume "get_prop row k = Some (Str [])"
    then show "primaryVal k row = Fin 0" "secondaryVal k row = Fin 0"
      by (simp_all add: primaryVal_def secondaryVal_def parseFloat_def empty isNaN_def)
  }
  {
    fix s
    assume "get_prop row k = Some (Str s) \<and> \<not> numeric_start (dropWhile is_ws s)"
    then show "primaryVal k row = Fin 0" "secondaryVal k row = Fin 0"
      using parseFloat_string_NaN_iff [of s]
      by (simp_all add: primaryVal_def secondaryVal_def parseFloat_def isNaN_def)
  }
  {
    fix s
    assume "get_prop row k = Some (Str s) \<and> numeric_start (dropWhile is_ws s)"
    then show "parseFloat_string s \<noteq> NaN" "primaryVal k row = parseFloat_string s"
      "secondaryVal k row = parseFloat_string s"
      using parseFloat_string_NaN_iff [of s]
      by (simp_all add: primaryVal_def secondaryVal_def parseFloat_def isNaN_def)
  }
  {
    fix ds
    assume a: "get_prop row k = Some (Str ds) \<and> ds \<noteq> [] \<and> list_all is_digit ds"
    then have "parseFloat_string ds = to_double False (int (dec ds) * 2 ^ 1074) 1"
      by (simp add: digits_parseFloat)
    with a show "primaryVal k row = to_double False (int (dec ds) * 2 ^ 1074) 1"
      "secondaryVal k row = to_double False (int (dec ds) * 2 ^ 1074) 1"
      by (simp_all add: primaryVal_def secondaryVal_def parseFloat_def isNaN_def
          to_double_not_NaN)
  }
  {
    fix r
    assume "r \<in> set rows \<and>
        length (filter (\<lambda>x. not_below (primaryKey type) (secondaryKey type) x r) rows) \<le> 5"
    then show "strip r \<in> set (rank type rows)"
      by (simp add: rank_member)
  }
  {
    assume "length rows \<le> 5"
    then show "mset (rank type rows) = mset (map strip rows)"
      by (rule rank_all)
  }
  {
    assume "valid_type type \<and> fetchSheetRows e = Inr rows"
    then show "top_characters e type =
        (TopCharacters (rank type rows) type (primaryKey type) (secondaryKey type), [Fetch])"
      by (simp add: top_characters_def)
  }
qed

theorem unparsable_key_is_zero_witness:
  "primaryVal PHYSICAL_KEY (character ''2'' ''n/a'' '''') = Fin 0 \<and>
   secondaryVal VALUE_KEY (character ''2'' ''n/a'' '''') = Fin 0 \<and>
   primaryVal MAGIC_KEY (character ''2'' ''n/a'' '''') = Fin 0 \<and>
   primaryVal MAGIC_KEY (character ''6'' ''4'' '''') = double_of 1 2 \<and>
   character ''2'' ''n/a'' '''' \<in> set (rank (QString (js ''magic'')) mixed_rows) \<and>
   rank (QString (js ''magic'')) mixed_rows =
     [character ''6'' ''4'' '''', character ''1'' ''3'' '''', character ''4'' ''2'' '''',
      character ''5'' ''1'' '''', character ''2'' ''n/a'' ''''] \<and>
   mset (rank (QString (js ''magic'')) example_rows) = mset example_rows \<and>
   top_characters example_env (QString (js ''magic'')) =
     (TopCharacters (rank (QString (js ''magic'')) example_rows) (QString (js ''magic''))
        MAGIC_KEY VALUE_KEY, [Fetch])"
proof -
  let ?row = "character ''2'' ''n/a'' ''''" and ?M = "QString (js ''magic'')"
  have missing: "get_prop ?row PHYSICAL_KEY = None"
    by (simp add: character_def get_prop_def js_def MAGIC_KEY_def VALUE_KEY_def PHYSICAL_KEY_def)
  have empty: "get_prop ?row VALUE_KEY = Some (Str [])"
    by (simp add: character_def get_prop_def js_def MAGIC_KEY_def VALUE_KEY_def)
  have letters: "get_prop ?row MAGIC_KEY = Some (Str (js ''n/a'')) \<and>
      \<not> numeric_start (dropWhile is_ws (js ''n/a''))"
    by (simp add: character_def get_prop_def js_def MAGIC_KEY_def numeric_start_def
        unsigned_start_def is_ws_def is_digit_def)
  have digits: "get_prop (character ''6'' ''4'' '''') MAGIC_KEY = Some (Str (js ''4'')) \<and>
      js ''4'' \<noteq> [] \<and> list_all is_digit (js ''4'')"
    by (simp add: character_def get_prop_def js_def MAGIC_KEY_def is_digit_def)
  have four: "to_double False (int (dec (js ''4'')) * 2 ^ 1074) 1 = double_of 1 2"
    by (simp add: dec_def js_def number_eval)
  have ranked: "?row \<in> set mixed_rows \<and>
      length (filter (\<lambda>x. not_below (primaryKey ?M) (secondaryKey ?M) x ?row) mixed_rows) \<le> 5"
    by (simp add: mixed_rows_def not_below_def mode_keys keys_mixed js_eq_def js_ge_def
        double_of_def)
  have few: "length example_rows \<le> 5"
    by (simp add: example_rows_def)
  have fetched: "valid_type ?M \<and> fetchSheetRows example_env = Inr example_rows"
    by (simp add: valid_type_def fetchSheetRows_def example_env_def)
  from unparsable_key_is_zero [of ?row PHYSICAL_KEY] missing
  have 1: "primaryVal PHYSICAL_KEY ?row = Fin 0" by blast
  from unparsable_key_is_zero [of ?row VALUE_KEY] empty
  have 2: "secondaryVal VALUE_KEY ?row = Fin 0" by blast
  from unparsable_key_is_zero [of ?row MAGIC_KEY] letters
  have 3: "primaryVal MAGIC_KEY ?row = Fin 0" by blast
  from unparsable_key_is_zero [of "character ''6'' ''4'' ''''" MAGIC_KEY] digits
  have "primaryVal MAGIC_KEY (character ''6'' ''4'' '''') =
      to_double False (int (dec (js ''4'')) * 2 ^ 1074) 1" by blast
  then have 4: "primaryVal MAGIC_KEY (character ''6'' ''4'' '''') = double_of 1 2"
    by (simp only: four)
  from unparsable_key_is_zero [of _ _ mixed_rows ?M] ranked
  have "strip ?row \<in> set (rank ?M mixed_rows)" by blast
  then have 5: "?row \<in> set (rank ?M mixed_rows)"
    by (simp only: strip_character)
  from unparsable_key_is_zero [of _ _ example_rows ?M] few
  have "mset (rank ?M example_rows) = mset (map strip example_rows)" by blast
  then have 6: "mset (rank ?M example_rows) = mset example_rows"
    by (simp add: example_rows_def strip_character)
  from unparsable_key_is_zero [of _ _ example_rows ?M example_env] fetched
  have "top_characters example_env ?M =
     (TopCharacters (rank ?M example_rows) ?M (primaryKey ?M) (secondaryKey ?M), [Fetch])"
    by blast
  with 1 2 3 4 5 6 show ?thesis
    by (simp add: mode_keys rank_mixed)
qed

text \<open>
  Claim C4. The dispatch from the mode to the two sort fields is the fixed table:
  \<^verbatim>\<open>magic\<close> sorts by the magic attack and then the value, \<^verbatim>\<open>physical\<close> by the physical
  attack and then the value, \<^verbatim>\<open>value\<close> by the value and then the magic attack.
\<close>

theorem sort_fields_table:
  "primaryKey (QString (js ''magic'')) = MAGIC_KEY \<and>
   secondaryKey (QString (js ''magic'')) = VALUE_KEY \<and>
   primaryKey (QString (js ''physical'')) = PHYSICAL_KEY \<and>
   secondaryKey (QString (js ''physical'')) = VALUE_KEY \<and>
   primaryKey (QString (js ''value'')) = VALUE_KEY \<and>
   secondaryKey (QString (js ''value'')) = MAGIC_KEY"
  by (simp add: primaryKey_def secondaryKey_def js_def)

text \<open>
  Claim C5, as amended. No row of the ranking has a field named \<^verbatim>\<open>__primary\<close> or
  \<^verbatim>\<open>__secondary\<close>. When no input row has a field of either name, the ranking is the first
  five rows of a rearrangement of the input list: every output row is an input row as it
  was, with its fields, their values and their order, and only the order of the rows
  changes. (Stated for every input, the claim fails: a field that the input row has under
  one of the two names is missing from the output row.)
\<close>

theorem rank_frame:
  "(\<forall>ob\<in>set (rank type rows).
      get_prop ob (js ''__primary'') = None \<and> get_prop ob (js ''__secondary'') = None) \<and>
   ((\<forall>r\<in>set rows. get_prop r (js ''__primary'') = None \<and> get_prop r (js ''__secondary'') = None)
      \<longrightarrow> (\<exists>ps. mset ps = mset rows \<and> rank type rows = take 5 ps))"
proof (intro conjI impI)
  show "\<forall>ob\<in>set (rank type rows).
      get_prop ob (js ''__primary'') = None \<and> get_prop ob (js ''__secondary'') = None"
    by (auto simp: rank_eq get_strip_reserved)
next
  assume a: "\<forall>r\<in>set rows. get_prop r (js ''__primary'') = None \<and> get_prop r (js ''__secondary'') = None"
  let ?S = "sort_key (sort_key_of (primaryKey type) (secondaryKey type)) rows"
  have "mset ?S = mset rows \<and> rank type rows = take 5 ?S"
    by (simp add: rank_unreserved [OF a])
  then show "\<exists>ps. mset ps = mset rows \<and> rank type rows = take 5 ps"
    by blast
qed

theorem rank_frame_witness:
  "get_prop (rank (QString (js ''magic'')) example_rows ! 0) (js ''__primary'') = None \<and>
   (\<exists>ps. mset ps = mset example_rows \<and> rank (QString (js ''magic'')) example_rows = take 5 ps)"
proof -
  let ?M = "QString (js ''magic'')"
  have unreserved: "\<forall>r\<in>set example_rows.
      get_prop r (js ''__primary'') = None \<and> get_prop r (js ''__secondary'') = None"
    by (simp add: example_rows_def character_def get_prop_def js_def MAGIC_KEY_def VALUE_KEY_def)
  have "rank ?M example_rows ! 0 \<in> set (rank ?M example_rows)"
    by (simp add: rank_example)
  with rank_frame [of ?M example_rows] unreserved show ?thesis
    by blast
qed

theorem rank_frame_counterexample:
  "rank (QString (js ''magic'')) [annotated_row] =
     [[(js ''ID'', Str (js ''1'')), (MAGIC_KEY, Str (js ''0''))]] \<and>
   rank (QString (js ''magic'')) [annotated_row] \<noteq> [annotated_row]"
  by (simp add: annotated_row_def rank_eval parse_eval number_eval)

text \<open>
  Claim C6. The ranking is stable on ties of both keys: the output rows with a given
  primary and secondary key, in output order, are an initial part of the input rows with
  these keys, in input order (\<open>strip\<close> leaves a row alone unless it has a field named
  \<^verbatim>\<open>__primary\<close> or \<^verbatim>\<open>__secondary\<close>).
\<close>

theorem rank_stable:
  "prefix
     (filter (\<lambda>r. js_eq (primaryVal (primaryKey type) r) p \<and>
                   js_eq (secondaryVal (secondaryKey type) r) s) (rank type rows))
     (filter (\<lambda>r. js_eq (primaryVal (primaryKey type) r) p \<and>
                   js_eq (secondaryVal (secondaryKey type) r) s) (map strip rows))"
proof -
  let ?K = "sort_key_of (primaryKey type) (secondaryKey type)"
  let ?k = "(desc_rank p, desc_rank s)"
  let ?S = "sort_key ?K rows"
  have "prefix (filter (\<lambda>r. ?K r = ?k) (take 5 ?S)) (filter (\<lambda>r. ?K r = ?k) ?S)"
    by (rule filter_take_prefix)
  also have "filter (\<lambda>r. ?K r = ?k) ?S = filter (\<lambda>r. ?K r = ?k) rows"
    by (rule sort_key_stable)
  finally have "prefix (map strip (filter (\<lambda>r. ?K r = ?k) (take 5 ?S)))
      (map strip (filter (\<lambda>r. ?K r = ?k) rows))"
    by (rule map_mono_prefix)
  then show ?thesis
    by (simp add: rank_eq filter_map comp_def key_filter sort_key_of_strip)
qed

theorem rank_stable_witness:
  "prefix
     [character ''1'' ''0'' ''0'', character ''2'' ''0'' ''0'', character ''3'' ''0'' ''0'',
      character ''4'' ''0'' ''0'', character ''5'' ''0'' ''0'']
     tied_rows"
proof -
  let ?M = "QString (js ''magic'')"
  let ?P = "\<lambda>r. js_eq (primaryVal (primaryKey ?M) r) (Fin 0) \<and>
                 js_eq (secondaryVal (secondaryKey ?M) r) (Fin 0)"
  have key: "?P (character i ''0'' ''0'')" for i
    by (simp add: rank_eval parse_eval number_eval)
  have unreserved: "strip (character i ''0'' ''0'') = character i ''0'' ''0''" for i
    by (simp add: rank_eval js_def)
  have "filter ?P (rank ?M tied_rows) = rank ?M tied_rows"
    unfolding rank_tied using key by simp
  moreover have "filter ?P (map strip tied_rows) = tied_rows"
    unfolding tied_rows_def using key unreserved by simp
  ultimately show ?thesis
    using rank_stable [of ?M "Fin 0" "Fin 0" tied_rows] by (simp add: rank_tied)
qed

text \<open>
  Claim C7, as amended. When no input row has a field named \<^verbatim>\<open>__primary\<close> or
  \<^verbatim>\<open>__secondary\<close>, the rows of the ranking are rows of the input, each at most as often
  as the input has it, and for an input of at most five rows the ranking is a permutation
  of the input. (Stated for every input, the claim fails: an input row with a field of
  one of the two names comes out without it, and that row is not in the input.)
\<close>

theorem rank_submultiset:
  assumes "\<forall>r\<in>set rows. get_prop r (js ''__primary'') = None \<and> get_prop r (js ''__secondary'') = None"
  shows "mset (rank type rows) \<subseteq># mset rows \<and>
         (length rows \<le> 5 \<longrightarrow> mset (rank type rows) = mset rows)"
proof -
  let ?S = "sort_key (sort_key_of (primaryKey type) (secondaryKey type)) rows"
  have "mset (take 5 ?S) \<subseteq># mset ?S"
    by (rule mset_take_subset)
  then show ?thesis
    by (simp add: rank_unreserved [OF assms])
qed

theorem rank_submultiset_witness:
  "mset (rank (QString (js ''magic'')) example_rows) \<subseteq># mset example_rows \<and>
   mset (rank (QString (js ''magic'')) example_rows) = mset example_rows"
proof -
  have unreserved: "\<forall>r\<in>set example_rows.
      get_prop r (js ''__primary'') = None \<and> get_prop r (js ''__secondary'') = None"
    by (simp add: example_rows_def character_def get_prop_def js_def MAGIC_KEY_def VALUE_KEY_def)
  have "length example_rows \<le> 5"
    by (simp add: example_rows_def)
  with rank_submultiset [OF unreserved, of "QString (js ''magic'')"] show ?thesis
    by blast
qed

theorem rank_submultiset_counterexample:
  "\<not> mset (rank (QString (js ''value'')) [annotated_row]) \<subseteq># mset [annotated_row]"
  by (simp add: annotated_row_def rank_eval parse_eval number_eval)

text \<open>
  Claim C8. A \<^verbatim>\<open>type\<close> parameter that is not one of the strings \<^verbatim>\<open>magic\<close>, \<^verbatim>\<open>physical\<close>
  and \<^verbatim>\<open>value\<close> (a missing one included) is answered with status 400 and nothing else
  happens: no sheet is fetched and nothing is ranked.
\<close>

theorem invalid_type_rejected:
  assumes "type \<noteq> QString (js ''magic'')" and "type \<noteq> QString (js ''physical'')"
    and "type \<noteq> QString (js ''value'')"
  shows "top_characters e type = (BadRequest, []) \<and> status_code BadRequest = 400"
  using assms by (simp add: top_characters_def valid_type_def)

theorem invalid_type_rejected_witness:
  "top_characters example_env QUndefined = (BadRequest, []) \<and>
   top_characters example_env (QString (js ''speed'')) = (BadRequest, []) \<and>
   top_characters example_env (QArray [QString (js ''magic'')]) = (BadRequest, []) \<and>
   status_code BadRequest = 400"
proof -
  have "QString (js ''speed'') \<noteq> QString (js ''magic'')"
    "QString (js ''speed'') \<noteq> QString (js ''physical'')"
    "QString (js ''speed'') \<noteq> QString (js ''value'')"
    by (simp_all add: js_def)
  from invalid_type_rejected [OF this, of example_env]
    invalid_type_rejected [of QUndefined example_env]
    invalid_type_rejected [of "QArray [QString (js ''magic'')]" example_env]
  show ?thesis by simp
qed

text \<open>
  Claim C9. The key is coerced to \<open>0\<close> only when the field has no numeric prefix. When
  the field is white space, then a literal \<open>p\<close>, then anything, \<^verbatim>\<open>parseFloat\<close> reads a
  number and the key is that number: the value of the longest prefix, from \<open>p\<close> on, that
  is a literal. When \<open>p\<close> is that longest prefix, whatever follows it, the key is the
  number that \<open>p\<close> denotes, as \<^verbatim>\<open>parseFloat\<close> reads it in \<open>p\<close> alone; this is so in
  particular when the rest is empty, or starts with a code unit that is not a digit or a
  dot and does not start an exponent part. \<^verbatim>\<open>12abc\<close>, \<^verbatim>\<open>12else\<close> and \<^verbatim>\<open>12e\<close> have the
  key 12, \<^verbatim>\<open> 3.5x\<close> and \<^verbatim>\<open>3.5.7\<close> the key 3.5, and \<^verbatim>\<open>100EUR\<close> the key 100.
\<close>

theorem numeric_prefix_key:
  assumes "get_prop row k = Some (Str (ws @ p @ r))"
    and "\<forall>c\<in>set ws. is_ws c"
    and "StrDecimalLiteral p = Some (l, [])"
  shows "parseFloat (get_prop row k) \<noteq> NaN \<and>
         primaryVal k row = parseFloat (get_prop row k) \<and>
         secondaryVal k row = parseFloat (get_prop row k) \<and>
         (\<exists>q l' r'. prefix p q \<and> p @ r = q @ r' \<and> StrDecimalLiteral q = Some (l', []) \<and>
            longest_literal q r' \<and> parseFloat (get_prop row k) = StringNumericValue l') \<and>
         (longest_literal p r \<longrightarrow>
            parseFloat (get_prop row k) = parseFloat_string p \<and>
            parseFloat_string p = StringNumericValue l) \<and>
         (ends_literal r \<longrightarrow>
            parseFloat (get_prop row k) = parseFloat_string p \<and>
            parseFloat_string p = StringNumericValue l)"
proof -
  have field: "parseFloat (get_prop row k) = parseFloat_string (ws @ p @ r)"
    using assms(1) by (simp add: parseFloat_def)
  have trim: "dropWhile is_ws (ws @ p @ r) = p @ r"
    by (rule dropWhile_ws [OF assms(2,3)])
  have n: "parseFloat (get_prop row k) \<noteq> NaN"
    using parseFloat_string_not_NaN [OF assms(2,3), of r] field by simp
  have "ends_literal []" by (simp add: ends_literal_def)
  from parseFloat_string_prefix [of "[]" p l "[]"] assms(3) this
  have p: "parseFloat_string p = StringNumericValue l" by simp
  have e: "parseFloat (get_prop row k) = StringNumericValue l" if "ends_literal r"
    using parseFloat_string_prefix [OF assms(2,3) that] field by simp
  have g: "parseFloat (get_prop row k) = StringNumericValue l" if "longest_literal p r"
    using longest_literal_parse [OF assms(3) that] field trim
    by (simp add: parseFloat_string_def)
  from literal_prefix_parse [OF assms(3), of r]
  obtain q l' r' where q: "prefix p q" "p @ r = q @ r'" "StrDecimalLiteral q = Some (l', [])"
    "longest_literal q r'" "StrDecimalLiteral (p @ r) = Some (l', r')"
    by blast
  then have "parseFloat (get_prop row k) = StringNumericValue l'"
    using field trim by (simp add: parseFloat_string_def)
  with q have x: "\<exists>q l' r'. prefix p q \<and> p @ r = q @ r' \<and> StrDecimalLiteral q = Some (l', []) \<and>
            longest_literal q r' \<and> parseFloat (get_prop row k) = StringNumericValue l'"
    by blast
  show ?thesis
    using p n e g x by (simp add: primaryVal_def secondaryVal_def isNaN_def)
qed

theorem numeric_prefix_key_witness:
  "primaryVal MAGIC_KEY (character ''1'' ''12abc'' '' 3.5x'') = double_of 12 0 \<and>
   secondaryVal VALUE_KEY (character ''1'' ''12abc'' '' 3.5x'') = double_of 7 (- 1) \<and>
   primaryVal MAGIC_KEY (character ''2'' ''12else'' ''3.5.7'') = double_of 12 0 \<and>
   secondaryVal VALUE_KEY (character ''2'' ''12else'' ''3.5.7'') = double_of 7 (- 1) \<and>
   primaryVal MAGIC_KEY (character ''3'' ''100EUR'' ''12e'') = double_of 25 2 \<and>
   secondaryVal VALUE_KEY (character ''3'' ''100EUR'' ''12e'') = double_of 12 0"
proof -
  let ?row = "character ''1'' ''12abc'' '' 3.5x''"
  let ?row2 = "character ''2'' ''12else'' ''3.5.7''"
  let ?row3 = "character ''3'' ''100EUR'' ''12e''"
  have m: "get_prop ?row MAGIC_KEY = Some (Str ([] @ js ''12'' @ js ''abc''))"
    by (simp add: character_def get_prop_def js_def MAGIC_KEY_def)
  have v: "get_prop ?row VALUE_KEY = Some (Str (js '' '' @ js ''3.5'' @ js ''x''))"
    by (simp add: character_def get_prop_def js_def MAGIC_KEY_def VALUE_KEY_def)
  have m2: "get_prop ?row2 MAGIC_KEY = Some (Str ([] @ js ''12'' @ js ''else''))"
    by (simp add: character_def get_prop_def js_def MAGIC_KEY_def)
  have v2: "get_prop ?row2 VALUE_KEY = Some (Str ([] @ js ''3.5'' @ js ''.7''))"
    by (simp add: character_def get_prop_def js_def MAGIC_KEY_def VALUE_KEY_def)
  have m3: "get_prop ?row3 MAGIC_KEY = Some (Str ([] @ js ''100'' @ js ''EUR''))"
    by (simp add: character_def get_prop_def js_def MAGIC_KEY_def)
  have v3: "get_prop ?row3 VALUE_KEY = Some (Str ([] @ js ''12'' @ js ''e''))"
    by (simp add: character_def get_prop_def js_def MAGIC_KEY_def VALUE_KEY_def)
  have ws: "\<forall>c\<in>set []. is_ws c" "\<forall>c\<in>set (js '' ''). is_ws c"
    by (simp_all add: js_def is_ws_def)
  have lit: "StrDecimalLiteral (js ''12'') = Some (Decimal False 12 0, [])"
    "StrDecimalLiteral (js ''3.5'') = Some (Decimal False 35 (- 1), [])"
    "StrDecimalLiteral (js ''100'') = Some (Decimal False 100 0, [])"
    by (simp_all add: parse_eval)
  have rest: "ends_literal (js ''abc'')" "ends_literal (js ''x'')" "ends_literal (js ''EUR'')"
    "ends_literal (js ''e'')"
    by (simp_all add: ends_literal_def is_digit_def js_def)
  have longest: "longest_literal (js ''12'') (js ''else'')"
    "longest_literal (js ''3.5'') (js ''.7'')"
    by code_simp+
  have val: "StringNumericValue (Decimal False 12 0) = double_of 12 0"
    "StringNumericValue (Decimal False 35 (- 1)) = double_of 7 (- 1)"
    "StringNumericValue (Decimal False 100 0) = double_of 25 2"
    by (simp_all add: number_eval)
  from numeric_prefix_key [OF m ws(1) lit(1)] rest(1)
  have "primaryVal MAGIC_KEY ?row = StringNumericValue (Decimal False 12 0)"
    by metis
  moreover from numeric_prefix_key [OF v ws(2) lit(2)] rest(2)
  have "secondaryVal VALUE_KEY ?row = StringNumericValue (Decimal False 35 (- 1))"
    by metis
  moreover from numeric_prefix_key [OF m2 ws(1) lit(1)] longest(1)
  have "primaryVal MAGIC_KEY ?row2 = StringNumericValue (Decimal False 12 0)"
    by metis
  moreover from numeric_prefix_key [OF v2 ws(1) lit(2)] longest(2)
  have "secondaryVal VALUE_KEY ?row2 = StringNumericValue (Decimal False 35 (- 1))"
    by metis
  moreover from numeric_prefix_key [OF m3 ws(1) lit(3)] rest(3)
  have "primaryVal MAGIC_KEY ?row3 = StringNumericValue (Decimal False 100 0)"
    by metis
  moreover from numeric_prefix_key [OF v3 ws(1) lit(1)] rest(4)
  have "secondaryVal VALUE_KEY ?row3 = StringNumericValue (Decimal False 12 0)"
    by metis
  ultimately show ?thesis
    by (simp only: val)
qed

text \<open>
  Claim C10. For an input row that has a field named \<^verbatim>\<open>__primary\<close> or \<^verbatim>\<open>__secondary\<close>, the
  decoration overwrites the field with the computed key and the strip removes it: every
  output row is the strip of an input row, the strip of such a row has neither field and
  so is not the row, and it is what the ranking returns for the row when nothing is cut
  off.
\<close>

theorem reserved_fields_dropped:
  assumes "r \<in> set rows"
    and "get_prop r (js ''__primary'') \<noteq> None \<or> get_prop r (js ''__secondary'') \<noteq> None"
  shows "get_prop (decorate (primaryKey type) (secondaryKey type) r) (js ''__primary'')
           = Some (Num (primaryVal (primaryKey type) r)) \<and>
         get_prop (decorate (primaryKey type) (secondaryKey type) r) (js ''__secondary'')
           = Some (Num (secondaryVal (secondaryKey type) r)) \<and>
         (length rows \<le> 5 \<longrightarrow> strip r \<in> set (rank type rows)) \<and>
         strip r \<noteq> r \<and>
         get_prop (strip r) (js ''__primary'') = None \<and>
         get_prop (strip r) (js ''__secondary'') = None \<and>
         set (rank type rows) \<subseteq> strip ` set rows"
proof -
  have "set (rank type rows) \<subseteq> strip ` set rows"
    by (auto simp: rank_eq dest: in_set_takeD)
  moreover have "length rows \<le> 5 \<longrightarrow> strip r \<in> set (rank type rows)"
    using assms(1) by (auto simp: rank_eq)
  ultimately show ?thesis
    using strip_changes [OF assms(2)]
    by (simp add: get_decorate_primary get_decorate_secondary get_strip_reserved)
qed

theorem reserved_fields_dropped_witness:
  "get_prop annotated_row (js ''__primary'') = Some (Str (js ''yes'')) \<and>
   get_prop (decorate MAGIC_KEY VALUE_KEY annotated_row) (js ''__primary'')
     = Some (Num (primaryVal MAGIC_KEY annotated_row)) \<and>
   strip annotated_row \<in> set (rank (QString (js ''magic'')) [annotated_row]) \<and>
   strip annotated_row \<noteq> annotated_row \<and>
   get_prop (strip annotated_row) (js ''__primary'') = None"
proof -
  have field: "get_prop annotated_row (js ''__primary'') = Some (Str (js ''yes''))"
    by (simp add: annotated_row_def get_prop_def js_def)
  then have "get_prop annotated_row (js ''__primary'') \<noteq> None \<or>
      get_prop annotated_row (js ''__secondary'') \<noteq> None"
    by simp
  from reserved_fields_dropped [OF _ this, of "[annotated_row]" "QString (js ''magic'')"] field
  show ?thesis
    by (simp add: mode_keys)
qed


end
